theory Spec2Isabelle
  imports Main "HOL-Library.AList" "HOL-Library.Sublist"
begin

section \<open>Quiz records (shared/schema.ts)\<close>

text \<open>
  A quiz travels as a JavaScript object. A property that may be absent is an
  \<open>option\<close> (\<open>None\<close>: the key is not there); a property that may also be
  \<open>null\<close> is an \<open>option option\<close> (\<open>Some None\<close>: the key is there and holds
  \<open>null\<close>). Dates are time stamps, numbers are integers.
\<close>

record Question =
  question :: string
  answerDescription :: string
  options :: "string list"
  correctAnswer :: string
  questionImages :: "string list"
  answerImages :: "string list"

record QuizAttempt =
  date :: int
  score :: int
  totalQuestions :: int
  timeSpent :: int

text \<open>
  \<open>QuizObject\<close> lists the properties of a quiz object, with the type of its two
  time stamps as a parameter. \<open>InsertQuiz\<close> is the type the insert schema infers,
  the value \<open>createQuiz\<close> takes and the \<open>Partial<InsertQuiz>\<close> that
  \<open>updateQuiz\<close> takes: there a time stamp is a \<open>Date\<close>. \<open>QuizJson\<close> is a
  quiz as it stands in a request body: the body is what \<open>express.json()\<close>
  parsed, JSON has no \<open>Date\<close>, and a time stamp can only be there as the text
  that \<open>JSON.stringify\<close> made of it. \<open>Quiz\<close> is a stored row: the properties
  of \<open>InsertQuiz\<close> and the numeric key \<open>id\<close>.
\<close>

record 'date QuizObject =
  uniqueId :: "string option"
  title :: "string option"
  description :: "string option"
  questions :: "Question list option"
  timer :: "int option"
  category :: "string option"
  history :: "QuizAttempt list option"
  createdAt :: "'date option"
  lastTaken :: "'date option option"
  password :: "string option option"
  isPublic :: "bool option"
  createdBy :: "int option option"
  version :: "int option"

type_synonym InsertQuiz = "int QuizObject"

type_synonym QuizJson = "string QuizObject"

record Quiz = "int QuizObject" +
  quizId :: nat

subsection \<open>Validation (insertQuizSchema, syncQuizSchema)\<close>

text \<open>
  \<open>insertQuizSchema\<close> is \<open>createInsertSchema(quizzes)\<close> without \<open>id\<close>, with
  \<open>questions\<close>, \<open>category\<close> and \<open>history\<close> replaced. It is applied to a quiz
  of the request body, property by property in the order of the columns; an issue
  is the path of the property that failed.

  \<^item> \<open>uniqueId\<close>, \<open>title\<close>, \<open>description\<close>, \<open>questions\<close>, \<open>timer\<close> and
    \<open>category\<close> are required; the columns with a default (\<open>createdAt\<close>,
    \<open>isPublic\<close>, \<open>version\<close>) and the nullable columns (\<open>history\<close>,
    \<open>lastTaken\<close>, \<open>password\<close>, \<open>createdBy\<close>) are optional.
  \<^item> \<open>category\<close> is a string of 1 to 50 characters: the union of the category
    enum with \<open>z.string().min(1).max(50)\<close>, and every name of the enum has
    between 1 and 50 characters.
  \<^item> The \<open>timestamp\<close> columns \<open>createdAt\<close> and \<open>lastTaken\<close> become
    \<open>z.date()\<close>, which accepts a \<open>Date\<close> object only and does not coerce. A
    body that carries \<open>createdAt\<close> carries text there and is refused;
    \<open>lastTaken\<close> is nullable, so \<open>null\<close> passes and text is refused.
  \<^item> The \<open>integer\<close> columns \<open>timer\<close>, \<open>createdBy\<close> and \<open>version\<close> become
    integer schemas. Whether they also bound the value to 32 bits depends on the
    release of \<open>drizzle-zod\<close> that is installed, which the sources do not fix:
    the check on the value is the parameter \<open>integerColumn\<close>.

  \<^item> \<open>questions\<close> and \<open>history\<close> are arrays of objects. A \<open>Question\<close> and
    a \<open>QuizAttempt\<close> of this theory have all their properties, so their schemas
    raise no issue; the \<open>date\<close> of a history row is \<open>z.coerce.date()\<close>,
    which makes a \<open>Date\<close> of the text in the body, and a row stands here with
    the date it is coerced to.

  On success the schema returns the properties it read. \<open>createdAt\<close> is absent
  then, and \<open>lastTaken\<close> is absent or \<open>null\<close>.
\<close>

datatype ZodError = ZodError "(nat \<times> string) list"

definition required :: "string \<Rightarrow> 'a option \<Rightarrow> string list" where
  "required name v = (case v of None \<Rightarrow> [name] | Some _ \<Rightarrow> [])"

definition QuizCategorySchema_issues :: "string option \<Rightarrow> string list" where
  "QuizCategorySchema_issues c =
     (case c of
        None \<Rightarrow> [''category'']
      | Some s \<Rightarrow> (if 1 \<le> length s \<and> length s \<le> 50 then [] else [''category'']))"

text \<open>\<open>z.date()\<close> on a property of a JSON body: whatever is there is not a \<open>Date\<close>.\<close>

definition date_issues :: "string \<Rightarrow> string option \<Rightarrow> string list" where
  "date_issues name v = (case v of None \<Rightarrow> [] | Some _ \<Rightarrow> [name])"

definition nullable_date_issues :: "string \<Rightarrow> string option option \<Rightarrow> string list" where
  "nullable_date_issues name v =
     (case v of None \<Rightarrow> [] | Some None \<Rightarrow> [] | Some (Some _) \<Rightarrow> [name])"

definition integer_issues :: "(int \<Rightarrow> bool) \<Rightarrow> string \<Rightarrow> int option \<Rightarrow> string list" where
  "integer_issues integerColumn name v =
     (case v of None \<Rightarrow> [] | Some n \<Rightarrow> (if integerColumn n then [] else [name]))"

definition nullable_integer_issues :: "(int \<Rightarrow> bool) \<Rightarrow> string \<Rightarrow> int option option \<Rightarrow> string list" where
  "nullable_integer_issues integerColumn name v =
     (case v of None \<Rightarrow> [] | Some None \<Rightarrow> []
      | Some (Some n) \<Rightarrow> (if integerColumn n then [] else [name]))"

definition insertQuizSchema_issues :: "(int \<Rightarrow> bool) \<Rightarrow> QuizJson \<Rightarrow> string list" where
  "insertQuizSchema_issues integerColumn q =
     required ''uniqueId'' (uniqueId q) @
     required ''title'' (title q) @
     required ''description'' (description q) @
     required ''questions'' (questions q) @
     required ''timer'' (timer q) @ integer_issues integerColumn ''timer'' (timer q) @
     QuizCategorySchema_issues (category q) @
     date_issues ''createdAt'' (createdAt q) @
     nullable_date_issues ''lastTaken'' (lastTaken q) @
     nullable_integer_issues integerColumn ''createdBy'' (createdBy q) @
     integer_issues integerColumn ''version'' (version q)"

definition insertQuizSchema_data :: "QuizJson \<Rightarrow> InsertQuiz" where
  "insertQuizSchema_data q =
     \<lparr> uniqueId = uniqueId q, title = title q, description = description q,
       questions = questions q, timer = timer q, category = category q,
       history = history q,
       createdAt = None,
       lastTaken = (case lastTaken q of Some None \<Rightarrow> Some None | _ \<Rightarrow> None),
       password = password q, isPublic = isPublic q, createdBy = createdBy q,
       version = version q \<rparr>"

text \<open>
  \<open>syncQuizSchema\<close> is \<open>z.object({ quizzes: z.array(insertQuizSchema) })\<close>:
  \<open>parse\<close> collects the issues of every element under its index and throws a
  \<open>ZodError\<close> if there is any; otherwise it returns the parsed quizzes.
\<close>

definition syncQuizSchema_parse :: "(int \<Rightarrow> bool) \<Rightarrow> QuizJson list \<Rightarrow> ZodError + InsertQuiz list" where
  "syncQuizSchema_parse integerColumn body =
     (let issues = concat (map (\<lambda>(i, q). map (Pair i) (insertQuizSchema_issues integerColumn q))
                               (enumerate 0 body))
      in if issues = [] then Inr (map insertQuizSchema_data body) else Inl (ZodError issues))"

section \<open>In-memory storage (server/storage.ts, class MemStorage)\<close>

text \<open>
  \<open>quizCollection\<close> is a JavaScript \<open>Map\<close>: its entries keep their insertion
  order, \<open>set\<close> on a key that is there replaces the value in place and on a new
  key appends, which is \<^const>\<open>AList.update\<close>. The user table plays no part in
  the quiz methods and is left out. \<open>DbStorage\<close> runs the same \<open>syncQuizzes\<close>
  and computes the version of an update by the same expression, against a database
  that is not modelled here.
\<close>

record MemStorage =
  quizCollection :: "(nat \<times> Quiz) list"
  quizCurrentId :: nat

text \<open>
  What the storage draws from outside: the identifier \<open>uuidv4()\<close> returns and
  the time \<open>new Date()\<close> reads, here for the creation that assigns a given
  numeric id.
\<close>

record Env =
  uuidv4 :: "nat \<Rightarrow> string"
  newDate :: "nat \<Rightarrow> int"

definition getQuiz :: "MemStorage \<Rightarrow> nat \<Rightarrow> Quiz option" where
  "getQuiz st i = map_of (quizCollection st) i"

definition getAllQuizzes :: "MemStorage \<Rightarrow> Quiz list" where
  "getAllQuizzes st = map snd (quizCollection st)"

definition getQuizByUniqueId :: "MemStorage \<Rightarrow> string option \<Rightarrow> Quiz option" where
  "getQuizByUniqueId st u = find (\<lambda>quiz. uniqueId quiz = u) (map snd (quizCollection st))"

definition getPublicQuizzes :: "MemStorage \<Rightarrow> Quiz list" where
  "getPublicQuizzes st = filter (\<lambda>quiz. isPublic quiz = Some True) (map snd (quizCollection st))"

text \<open>JavaScript truthiness of the two kinds of value the storage tests.\<close>

definition truthy_string :: "string option \<Rightarrow> bool" where
  "truthy_string s = (case s of None \<Rightarrow> False | Some x \<Rightarrow> x \<noteq> [])"

definition truthy_number :: "int option \<Rightarrow> bool" where
  "truthy_number n = (case n of None \<Rightarrow> False | Some x \<Rightarrow> x \<noteq> 0)"

definition createQuiz :: "Env \<Rightarrow> MemStorage \<Rightarrow> InsertQuiz \<Rightarrow> MemStorage \<times> Quiz" where
  "createQuiz env st quiz =
     (let i = quizCurrentId st;
          uid = (if \<not> truthy_string (uniqueId quiz) then Some (uuidv4 env i) else uniqueId quiz);
          v = (case version quiz of None \<Rightarrow> 1 | Some x \<Rightarrow> if x = 0 then 1 else x);
          pw = (case password quiz of None \<Rightarrow> None | Some p \<Rightarrow> p);
          newQuiz = \<lparr> uniqueId = uid, title = title quiz, description = description quiz,
                      questions = questions quiz, timer = timer quiz, category = category quiz,
                      history = history quiz,
                      createdAt = (case createdAt quiz of None \<Rightarrow> Some (newDate env i)
                                   | Some d \<Rightarrow> Some d),
                      lastTaken = lastTaken quiz, password = Some pw,
                      isPublic = isPublic quiz, createdBy = createdBy quiz,
                      version = Some v, quizId = i \<rparr>
      in (st \<lparr> quizCollection := AList.update i newQuiz (quizCollection st),
               quizCurrentId := i + 1 \<rparr>, newQuiz))"

text \<open>
  The object spread \<open>{...existingQuiz, ...quizUpdate, version: ...}\<close>: a property
  the update carries replaces the stored one, a property it lacks keeps the stored
  value, and \<open>version\<close> is set last.
\<close>

definition spread :: "'a option \<Rightarrow> 'a option \<Rightarrow> 'a option" where
  "spread stored update = (case update of None \<Rightarrow> stored | Some x \<Rightarrow> Some x)"

definition updateQuiz :: "MemStorage \<Rightarrow> nat \<Rightarrow> InsertQuiz \<Rightarrow> MemStorage \<times> Quiz option" where
  "updateQuiz st i quizUpdate =
     (case map_of (quizCollection st) i of
        None \<Rightarrow> (st, None)
      | Some existingQuiz \<Rightarrow>
          (let updatedQuiz = existingQuiz
                 \<lparr> uniqueId := spread (uniqueId existingQuiz) (uniqueId quizUpdate),
                   title := spread (title existingQuiz) (title quizUpdate),
                   description := spread (description existingQuiz) (description quizUpdate),
                   questions := spread (questions existingQuiz) (questions quizUpdate),
                   timer := spread (timer existingQuiz) (timer quizUpdate),
                   category := spread (category existingQuiz) (category quizUpdate),
                   history := spread (history existingQuiz) (history quizUpdate),
                   createdAt := spread (createdAt existingQuiz) (createdAt quizUpdate),
                   lastTaken := spread (lastTaken existingQuiz) (lastTaken quizUpdate),
                   password := spread (password existingQuiz) (password quizUpdate),
                   isPublic := spread (isPublic existingQuiz) (isPublic quizUpdate),
                   createdBy := spread (createdBy existingQuiz) (createdBy quizUpdate),
                   version := Some (if truthy_number (version existingQuiz)
                                    then (case version existingQuiz of Some v \<Rightarrow> v + 1 | None \<Rightarrow> 1)
                                    else 1) \<rparr>
           in (st \<lparr> quizCollection := AList.update i updatedQuiz (quizCollection st) \<rparr>,
               Some updatedQuiz)))"

text \<open>
  The test of \<open>syncQuizzes\<close>:
  \<open>!existingQuiz.version || !quizToSync.version || quizToSync.version >= existingQuiz.version\<close>.
\<close>

definition incoming_wins :: "int option \<Rightarrow> int option \<Rightarrow> bool" where
  "incoming_wins existingVersion incomingVersion =
     (\<not> truthy_number existingVersion \<or> \<not> truthy_number incomingVersion \<or>
      (case (incomingVersion, existingVersion) of
         (Some i, Some e) \<Rightarrow> i \<ge> e
       | _ \<Rightarrow> False))"

text \<open>
  One turn of the loop of \<open>syncQuizzes\<close>: the storage afterwards and the quiz
  pushed onto \<open>synced\<close>, if any.
\<close>

definition sync_one :: "Env \<Rightarrow> MemStorage \<Rightarrow> InsertQuiz \<Rightarrow> MemStorage \<times> Quiz option" where
  "sync_one env st quizToSync =
     (case getQuizByUniqueId st (uniqueId quizToSync) of
        Some existingQuiz \<Rightarrow>
          (if incoming_wins (version existingQuiz) (version quizToSync)
           then updateQuiz st (quizId existingQuiz) quizToSync
           else (st, Some existingQuiz))
      | None \<Rightarrow>
          (let (st', newQuiz) = createQuiz env st quizToSync in (st', Some newQuiz)))"

fun sync_loop :: "Env \<Rightarrow> MemStorage \<Rightarrow> Quiz list \<Rightarrow> InsertQuiz list \<Rightarrow> MemStorage \<times> Quiz list" where
  "sync_loop env st synced [] = (st, synced)"
| "sync_loop env st synced (quizToSync # rest) =
     (case sync_one env st quizToSync of
        (st', Some pushed) \<Rightarrow> sync_loop env st' (synced @ [pushed]) rest
      | (st', None) \<Rightarrow> sync_loop env st' synced rest)"

definition syncQuizzes :: "Env \<Rightarrow> MemStorage \<Rightarrow> InsertQuiz list \<Rightarrow> MemStorage \<times> Quiz list" where
  "syncQuizzes env st quizzesToSync = sync_loop env st [] quizzesToSync"

subsection \<open>The sync route (server/routes.ts, POST /api/quizzes/sync)\<close>

text \<open>
  The handler validates the whole body first; a \<open>ZodError\<close> is answered with
  status 400 before the storage is called. Otherwise it runs \<open>syncQuizzes\<close> on
  the parsed quizzes and answers with the public quizzes (\<open>res.json\<close>, status
  200). \<open>body\<close> is the array under \<open>quizzes\<close> of the request body.
\<close>

datatype ResponseBody =
    Quizzes "Quiz list"
  | InvalidData string "(nat \<times> string) list"

record Response =
  status :: nat
  json :: ResponseBody

definition sync_route :: "(int \<Rightarrow> bool) \<Rightarrow> Env \<Rightarrow> MemStorage \<Rightarrow> QuizJson list \<Rightarrow> MemStorage \<times> Response" where
  "sync_route integerColumn env st body =
     (case syncQuizSchema_parse integerColumn body of
        Inl (ZodError errors) \<Rightarrow>
          (st, \<lparr> status = 400, json = InvalidData ''Invalid sync data'' errors \<rparr>)
      | Inr quizzes \<Rightarrow>
          (let (st', syncedQuizzes) = syncQuizzes env st quizzes
           in (st', \<lparr> status = 200, json = Quizzes (getPublicQuizzes st') \<rparr>)))"

text \<open>
  The invariant of the storage that \<open>createQuiz\<close> and \<open>updateQuiz\<close> keep: the
  keys of the map are distinct, every row is stored under its own \<open>id\<close>, and the
  ids handed out so far are below \<open>quizCurrentId\<close>.
\<close>

definition storage_ok :: "MemStorage \<Rightarrow> bool" where
  "storage_ok st =
     (distinct (map fst (quizCollection st)) \<and>
      list_all (\<lambda>(k, quiz). quizId quiz = k \<and> k < quizCurrentId st) (quizCollection st))"

section \<open>The quiz list of the client (client/src/pages/Quiz.tsx)\<close>

text \<open>
  The client keeps its quizzes in component state. Its \<open>Quiz\<close> type has a string
  \<open>id\<close> and an optional \<open>version\<close>; the fields carry the prefix \<open>c_\<close> here,
  the record is \<open>ClientQuiz\<close>. \<open>QuizApp\<close> holds the state the two edit
  handlers read and write; the flags of the dialogs and the active tab are left
  out, and \<open>toast\<close> is the title of the last notification.
\<close>

record ClientQuiz =
  c_id :: string
  c_title :: string
  c_description :: string
  c_questions :: "Question list"
  c_timer :: int
  c_lastTaken :: "int option"
  c_password :: "string option"
  c_category :: string
  c_history :: "QuizAttempt list option"
  c_createdAt :: int
  c_isPublic :: bool
  c_version :: "int option"

record QuizApp =
  quizzes :: "ClientQuiz list"
  quizToEdit :: "nat option"
  newQuiz :: ClientQuiz
  newQuestions :: "Question list"
  isEditMode :: bool
  passwordInput :: string
  toast :: "string option"

text \<open>The exceptions the code can meet; \<open>Error\<close> carries its message.\<close>

datatype error = TypeError | SyntaxError | QuotaExceededError | Error string

definition MASTER_PASSWORD :: string where
  "MASTER_PASSWORD = ''8387''"

text \<open>
  \<open>String.prototype.trim\<close> on the characters a \<open>string\<close> of this theory holds:
  tab, line feed, vertical tab, form feed, carriage return, space and the
  no-break space.
\<close>

definition js_whitespace :: "char \<Rightarrow> bool" where
  "js_whitespace c = (of_char c \<in> {9, 10, 11, 12, 13, 32, 160 :: nat})"

definition trim :: "string \<Rightarrow> string" where
  "trim s = rev (dropWhile js_whitespace (rev (dropWhile js_whitespace s)))"

definition emptyQuiz :: "string \<Rightarrow> int \<Rightarrow> ClientQuiz" where
  "emptyQuiz uuid now =
     \<lparr> c_id = uuid, c_title = [], c_description = [], c_questions = [], c_timer = 300,
       c_lastTaken = None, c_password = None, c_category = ''General Knowledge'',
       c_history = Some [], c_createdAt = now, c_isPublic = False, c_version = Some 1 \<rparr>"

definition emptyQuestion :: Question where
  "emptyQuestion =
     \<lparr> question = [], answerDescription = [], options = [[], [], [], []],
       correctAnswer = [], questionImages = [], answerImages = [] \<rparr>"

text \<open>
  \<open>handlePasswordSubmit\<close> loads the quiz at \<open>quizToEdit\<close> into the form when
  the password matches; \<open>quizzes[quizToEdit]\<close> out of range is \<open>undefined\<close> and
  reading its \<open>password\<close> throws.
\<close>

definition handlePasswordSubmit :: "QuizApp \<Rightarrow> error + QuizApp" where
  "handlePasswordSubmit app =
     (case quizToEdit app of
        None \<Rightarrow> Inr app
      | Some e \<Rightarrow>
          (if e < length (quizzes app) then
             (let quiz = quizzes app ! e; userPassword = passwordInput app in
              if (truthy_string (c_password quiz) \<and> Some userPassword = c_password quiz)
                 \<or> userPassword = MASTER_PASSWORD
              then Inr (app \<lparr> passwordInput := [],
                              newQuiz := \<lparr> c_id = c_id quiz, c_title = c_title quiz,
                                 c_description = c_description quiz, c_questions = [],
                                 c_timer = c_timer quiz, c_lastTaken = None,
                                 c_password = c_password quiz,
                                 c_category = (if c_category quiz = [] then ''General Knowledge''
                                               else c_category quiz),
                                 c_history = (case c_history quiz of None \<Rightarrow> Some []
                                              | Some h \<Rightarrow> Some h),
                                 c_createdAt = c_createdAt quiz, c_isPublic = c_isPublic quiz,
                                 c_version = Some (if truthy_number (c_version quiz)
                                                   then (case c_version quiz of Some v \<Rightarrow> v
                                                         | None \<Rightarrow> 1)
                                                   else 1) \<rparr>,
                              newQuestions := c_questions quiz,
                              isEditMode := True,
                              toast := Some ''Edit Mode'' \<rparr>)
              else Inr (app \<lparr> toast := Some ''Access Denied'' \<rparr>))
           else Inl TypeError))"

text \<open>
  \<open>handleUpdateQuiz\<close> writes the form back over the quiz at \<open>quizToEdit\<close>:
  \<open>prev.map((q, i) => i === quizToEdit ? { ...newQuiz, questions } : q)\<close>, then
  resets the form. The fresh id and the time of the reset are arguments.
\<close>

definition filled :: "Question \<Rightarrow> bool" where
  "filled q = (trim (question q) \<noteq> [] \<and> list_all (\<lambda>opt. trim opt \<noteq> []) (options q)
               \<and> trim (correctAnswer q) \<noteq> [])"

definition handleUpdateQuiz :: "string \<Rightarrow> int \<Rightarrow> QuizApp \<Rightarrow> QuizApp" where
  "handleUpdateQuiz uuid now app =
     (case quizToEdit app of
        None \<Rightarrow> app
      | Some e \<Rightarrow>
          (if trim (c_title (newQuiz app)) = [] \<or> c_timer (newQuiz app) \<le> 0
           then app \<lparr> toast := Some ''Validation Error'' \<rparr>
           else
             (let qs = filter filled (newQuestions app) in
              if length qs = 0 then app \<lparr> toast := Some ''Validation Error'' \<rparr>
              else app \<lparr> quizzes := map (\<lambda>(i, q). if i = e then (newQuiz app) \<lparr> c_questions := qs \<rparr>
                                                 else q)
                                          (enumerate 0 (quizzes app)),
                         newQuiz := emptyQuiz uuid now,
                         newQuestions := [emptyQuestion],
                         isEditMode := False,
                         quizToEdit := None,
                         toast := Some ''Success'' \<rparr>)))"

section \<open>Chunked persistence (client/src/pages/Quiz.tsx)\<close>

subsection \<open>Numbers and their decimal strings\<close>

text \<open>
  \<open>toString\<close> is \<open>Number.prototype.toString\<close> on a non-negative integer, as the
  template strings and \<open>chunks.toString()\<close> use it. \<open>parseInt\<close> is
  \<open>parseInt(s, 10)\<close>: leading white space, an optional sign, then the longest run
  of digits; \<open>None\<close> is \<open>NaN\<close>.
\<close>

definition digit_char :: "nat \<Rightarrow> char" where
  "digit_char d = char_of (48 + d)"

fun toString :: "nat \<Rightarrow> string" where
  "toString n = (if n < 10 then [digit_char n] else toString (n div 10) @ [digit_char (n mod 10)])"

definition is_digit :: "char \<Rightarrow> bool" where
  "is_digit c = (48 \<le> (of_char c :: nat) \<and> (of_char c :: nat) \<le> 57)"

definition digit_val :: "char \<Rightarrow> nat" where
  "digit_val c = of_char c - 48"

definition digits_value :: "string \<Rightarrow> nat" where
  "digits_value ds = foldl (\<lambda>acc c. acc * 10 + digit_val c) 0 ds"

definition parseInt :: "string \<Rightarrow> int option" where
  "parseInt s =
     (let t = dropWhile js_whitespace s;
          neg = (case t of [] \<Rightarrow> False | c # _ \<Rightarrow> c = CHR ''-'');
          u = (case t of [] \<Rightarrow> [] | c # r \<Rightarrow> if c = CHR ''-'' \<or> c = CHR ''+'' then r else t);
          ds = takeWhile is_digit u
      in if ds = [] then None
         else Some (if neg then - int (digits_value ds) else int (digits_value ds)))"

subsection \<open>JavaScript values and JSON\<close>

text \<open>
  The values \<open>saveToLocalStorage\<close> is given. Numbers are the integers; a \<open>Date\<close>
  is known by the string its \<open>toISOString\<close> returns; an object is the list of its
  own properties in order. Strings hold 8-bit characters, so a \<open>\\u\<close> escape
  above \<open>00ff\<close> and a number with a fraction or an exponent are outside the values
  of this theory: the parser below reports them as it reports a syntax error.
\<close>

datatype jsvalue =
    JUndefined
  | JNull
  | JBool bool
  | JNum int
  | JStr string
  | JDate string
  | JArr "jsvalue list"
  | JObj "(string \<times> jsvalue) list"

text \<open>\<open>JSON.stringify(value)\<close> without indentation (ECMAScript, 25.5.2).\<close>

definition hex_digit :: "nat \<Rightarrow> char" where
  "hex_digit d = (if d < 10 then char_of (48 + d) else char_of (87 + d))"

definition escape_char :: "char \<Rightarrow> string" where
  "escape_char c =
     (if c = CHR 0x22 then [CHR 0x5C, CHR 0x22]
      else if c = CHR 0x5C then [CHR 0x5C, CHR 0x5C]
      else if c = CHR 0x08 then [CHR 0x5C, CHR ''b'']
      else if c = CHR 0x0C then [CHR 0x5C, CHR ''f'']
      else if c = CHR 0x0A then [CHR 0x5C, CHR ''n'']
      else if c = CHR 0x0D then [CHR 0x5C, CHR ''r'']
      else if c = CHR 0x09 then [CHR 0x5C, CHR ''t'']
      else if (of_char c :: nat) < 32
        then [CHR 0x5C, CHR ''u'', CHR ''0'', CHR ''0'',
              hex_digit (of_char c div 16), hex_digit (of_char c mod 16)]
      else [c])"

definition QuoteJSONString :: "string \<Rightarrow> string" where
  "QuoteJSONString s = CHR 0x22 # concat (map escape_char s) @ [CHR 0x22]"

definition int_toString :: "int \<Rightarrow> string" where
  "int_toString i = (if i < 0 then CHR ''-'' # toString (nat (- i)) else toString (nat i))"

fun join :: "string list \<Rightarrow> string" where
  "join [] = []"
| "join [x] = x"
| "join (x # y # ys) = x @ CHR '','' # join (y # ys)"

fun SerializeJSONProperty :: "jsvalue \<Rightarrow> string option"
  and SerializeJSONArray :: "jsvalue list \<Rightarrow> string list"
  and SerializeJSONObject :: "(string \<times> jsvalue) list \<Rightarrow> string list"
where
  "SerializeJSONProperty JUndefined = None"
| "SerializeJSONProperty JNull = Some ''null''"
| "SerializeJSONProperty (JBool b) = Some (if b then ''true'' else ''false'')"
| "SerializeJSONProperty (JNum i) = Some (int_toString i)"
| "SerializeJSONProperty (JStr s) = Some (QuoteJSONString s)"
| "SerializeJSONProperty (JDate isoString) = Some (QuoteJSONString isoString)"
| "SerializeJSONProperty (JArr xs) = Some (CHR ''['' # join (SerializeJSONArray xs) @ '']'')"
| "SerializeJSONProperty (JObj kvs) = Some (CHR ''{'' # join (SerializeJSONObject kvs) @ ''}'')"
| "SerializeJSONArray [] = []"
| "SerializeJSONArray (x # xs) =
     (case SerializeJSONProperty x of None \<Rightarrow> ''null'' | Some s \<Rightarrow> s) # SerializeJSONArray xs"
| "SerializeJSONObject [] = []"
| "SerializeJSONObject ((k, v) # kvs) =
     (case SerializeJSONProperty v of
        None \<Rightarrow> SerializeJSONObject kvs
      | Some s \<Rightarrow> (QuoteJSONString k @ CHR '':'' # s) # SerializeJSONObject kvs)"

definition JSON_stringify :: "jsvalue \<Rightarrow> string option" where
  "JSON_stringify v = SerializeJSONProperty v"

text \<open>
  \<open>JSON.parse(text)\<close>: a recursive descent over the JSON grammar. The descent is
  bounded by a counter that \<open>JSON_parse\<close> starts above the length of the text;
  \<open>JSON_roundtrip\<close> below shows that it is enough for every text that
  \<open>JSON.stringify\<close> writes. A repeated key keeps its first position and its
  last value.
\<close>

definition json_ws :: "char \<Rightarrow> bool" where
  "json_ws c = (c = CHR 0x20 \<or> c = CHR 0x09 \<or> c = CHR 0x0A \<or> c = CHR 0x0D)"

definition skip_ws :: "string \<Rightarrow> string" where
  "skip_ws s = dropWhile json_ws s"

definition hex_val :: "char \<Rightarrow> nat option" where
  "hex_val c =
     (let n = (of_char c :: nat) in
      if 48 \<le> n \<and> n \<le> 57 then Some (n - 48)
      else if 97 \<le> n \<and> n \<le> 102 then Some (n - 87)
      else if 65 \<le> n \<and> n \<le> 70 then Some (n - 55)
      else None)"

definition unescape :: "char \<Rightarrow> char option" where
  "unescape e =
     (if e = CHR 0x22 then Some (CHR 0x22)
      else if e = CHR 0x5C then Some (CHR 0x5C)
      else if e = CHR ''/'' then Some (CHR ''/'')
      else if e = CHR ''b'' then Some (CHR 0x08)
      else if e = CHR ''f'' then Some (CHR 0x0C)
      else if e = CHR ''n'' then Some (CHR 0x0A)
      else if e = CHR ''r'' then Some (CHR 0x0D)
      else if e = CHR ''t'' then Some (CHR 0x09)
      else None)"

fun parse_string_body :: "string \<Rightarrow> (string \<times> string) option" where
  "parse_string_body [] = None"
| "parse_string_body (c # cs) =
     (if c = CHR 0x22 then Some ([], cs)
      else if c = CHR 0x5C then
        (case cs of
           [] \<Rightarrow> None
         | e # r \<Rightarrow>
             if e = CHR ''u'' then
               (case r of
                  h3 # h2 # h1 # h0 # r' \<Rightarrow>
                    (case (hex_val h3, hex_val h2, hex_val h1, hex_val h0) of
                       (Some a, Some b, Some c', Some d) \<Rightarrow>
                         (if ((a * 16 + b) * 16 + c') * 16 + d < 256
                          then (case parse_string_body r' of
                                  Some (s, rest) \<Rightarrow>
                                    Some (char_of (((a * 16 + b) * 16 + c') * 16 + d) # s, rest)
                                | None \<Rightarrow> None)
                          else None)
                     | _ \<Rightarrow> None)
                | _ \<Rightarrow> None)
             else
               (case unescape e of
                  Some x \<Rightarrow>
                    (case parse_string_body r of
                       Some (s, rest) \<Rightarrow> Some (x # s, rest)
                     | None \<Rightarrow> None)
                | None \<Rightarrow> None))
      else if (of_char c :: nat) < 32 then None
      else (case parse_string_body cs of
              Some (s, rest) \<Rightarrow> Some (c # s, rest)
            | None \<Rightarrow> None))"

definition number_end :: "string \<Rightarrow> bool" where
  "number_end r = (case r of [] \<Rightarrow> True
                   | c # _ \<Rightarrow> c \<noteq> CHR ''.'' \<and> c \<noteq> CHR ''e'' \<and> c \<noteq> CHR ''E'')"

definition parse_natural :: "string \<Rightarrow> (nat \<times> string) option" where
  "parse_natural s =
     (case s of
        [] \<Rightarrow> None
      | c # r \<Rightarrow>
          if c = CHR ''0'' then (if number_end r then Some (0, r) else None)
          else if is_digit c then
            (if number_end (dropWhile is_digit s)
             then Some (digits_value (takeWhile is_digit s), dropWhile is_digit s) else None)
          else None)"

definition parse_number :: "string \<Rightarrow> (int \<times> string) option" where
  "parse_number s =
     (case s of
        [] \<Rightarrow> None
      | c # r \<Rightarrow>
          if c = CHR ''-'' then
            (case parse_natural r of Some (n, rest) \<Rightarrow> Some (- int n, rest) | None \<Rightarrow> None)
          else
            (case parse_natural s of Some (n, rest) \<Rightarrow> Some (int n, rest) | None \<Rightarrow> None))"

definition object_of :: "(string \<times> jsvalue) list \<Rightarrow> (string \<times> jsvalue) list" where
  "object_of members = foldl (\<lambda>acc (k, v). AList.update k v acc) [] members"

fun parse_value :: "nat \<Rightarrow> string \<Rightarrow> (jsvalue \<times> string) option"
  and parse_elements :: "nat \<Rightarrow> string \<Rightarrow> (jsvalue list \<times> string) option"
  and parse_members :: "nat \<Rightarrow> string \<Rightarrow> ((string \<times> jsvalue) list \<times> string) option"
where
  "parse_value 0 s = None"
| "parse_value (Suc n) s =
     (case skip_ws s of
        [] \<Rightarrow> None
      | c # cs \<Rightarrow>
          if c = CHR ''['' then
            (case skip_ws cs of
               [] \<Rightarrow> None
             | c' # cs' \<Rightarrow>
                 if c' = CHR '']'' then Some (JArr [], cs')
                 else (case parse_elements n cs of
                         Some (vs, r) \<Rightarrow> Some (JArr vs, r)
                       | None \<Rightarrow> None))
          else if c = CHR ''{'' then
            (case skip_ws cs of
               [] \<Rightarrow> None
             | c' # cs' \<Rightarrow>
                 if c' = CHR ''}'' then Some (JObj [], cs')
                 else (case parse_members n cs of
                         Some (kvs, r) \<Rightarrow> Some (JObj (object_of kvs), r)
                       | None \<Rightarrow> None))
          else if c = CHR 0x22 then
            (case parse_string_body cs of
               Some (str, r) \<Rightarrow> Some (JStr str, r)
             | None \<Rightarrow> None)
          else if prefix ''true'' (c # cs) then Some (JBool True, drop 4 (c # cs))
          else if prefix ''false'' (c # cs) then Some (JBool False, drop 5 (c # cs))
          else if prefix ''null'' (c # cs) then Some (JNull, drop 4 (c # cs))
          else (case parse_number (c # cs) of
                  Some (i, r) \<Rightarrow> Some (JNum i, r)
                | None \<Rightarrow> None))"
| "parse_elements 0 s = None"
| "parse_elements (Suc n) s =
     (case parse_value n s of
        None \<Rightarrow> None
      | Some (v, r) \<Rightarrow>
          (case skip_ws r of
             [] \<Rightarrow> None
           | c # cs \<Rightarrow>
               if c = CHR '','' then
                 (case parse_elements n cs of
                    Some (vs, r') \<Rightarrow> Some (v # vs, r')
                  | None \<Rightarrow> None)
               else if c = CHR '']'' then Some ([v], cs)
               else None))"
| "parse_members 0 s = None"
| "parse_members (Suc n) s =
     (case skip_ws s of
        [] \<Rightarrow> None
      | q # s1 \<Rightarrow>
          if q = CHR 0x22 then
            (case parse_string_body s1 of
               None \<Rightarrow> None
             | Some (k, s2) \<Rightarrow>
                 (case skip_ws s2 of
                    [] \<Rightarrow> None
                  | colon # s3 \<Rightarrow>
                      if colon = CHR '':'' then
                        (case parse_value n s3 of
                           None \<Rightarrow> None
                         | Some (v, r) \<Rightarrow>
                             (case skip_ws r of
                                [] \<Rightarrow> None
                              | c # cs \<Rightarrow>
                                  if c = CHR '','' then
                                    (case parse_members n cs of
                                       Some (kvs, r') \<Rightarrow> Some ((k, v) # kvs, r')
                                     | None \<Rightarrow> None)
                                  else if c = CHR ''}'' then Some ([(k, v)], cs)
                                  else None))
                      else None))
          else None)"

definition JSON_parse :: "string \<Rightarrow> error + jsvalue" where
  "JSON_parse text =
     (case parse_value (Suc (length text)) text of
        None \<Rightarrow> Inl SyntaxError
      | Some (v, r) \<Rightarrow> if skip_ws r = [] then Inr v else Inl SyntaxError)"

subsection \<open>localStorage\<close>

text \<open>
  The storage backend maps keys to strings. \<open>setItem\<close> throws
  \<open>QuotaExceededError\<close> when the browser refuses the write; when it does is the
  browser's choice, the argument \<open>quota\<close>.
\<close>

type_synonym localStorage = "string \<rightharpoonup> string"

type_synonym quota = "localStorage \<Rightarrow> string \<Rightarrow> string \<Rightarrow> bool"

definition getItem :: "localStorage \<Rightarrow> string \<Rightarrow> string option" where
  "getItem ls k = ls k"

definition setItem :: "quota \<Rightarrow> localStorage \<Rightarrow> string \<Rightarrow> string \<Rightarrow> error + localStorage" where
  "setItem quota ls k v = (if quota ls k v then Inr (ls(k \<mapsto> v)) else Inl QuotaExceededError)"

definition removeItem :: "localStorage \<Rightarrow> string \<Rightarrow> localStorage" where
  "removeItem ls k = ls(k := None)"

definition chunks_key :: "string \<Rightarrow> string" where
  "chunks_key key = key @ ''_chunks''"

definition chunk_key :: "string \<Rightarrow> nat \<Rightarrow> string" where
  "chunk_key key i = key @ ''_chunk_'' @ toString i"

definition substring :: "string \<Rightarrow> nat \<Rightarrow> nat \<Rightarrow> string" where
  "substring s start end = take (end - start) (drop start s)"

text \<open>\<open>Math.ceil(a / b)\<close> on a length and a positive chunk size.\<close>

definition ceil_div :: "nat \<Rightarrow> nat \<Rightarrow> nat" where
  "ceil_div a b = (a + b - 1) div b"

subsection \<open>saveToLocalStorage\<close>

text \<open>
  The first two lines of the \<open>try\<close> block:
  \<open>JSON.parse(JSON.stringify(data))\<close>, then \<open>JSON.stringify\<close> of the result.
  \<open>JSON.stringify\<close> returns \<open>undefined\<close> for \<open>undefined\<close>, which
  \<open>JSON.parse\<close> reads as the text \<open>undefined\<close>.
\<close>

definition serialize :: "jsvalue \<Rightarrow> error + string" where
  "serialize data =
     (case JSON_parse (case JSON_stringify data of None \<Rightarrow> ''undefined'' | Some s \<Rightarrow> s) of
        Inl e \<Rightarrow> Inl e
      | Inr preparedData \<Rightarrow>
          (case JSON_stringify preparedData of
             None \<Rightarrow> Inl TypeError
           | Some jsonString \<Rightarrow> Inr jsonString))"

text \<open>
  The clean-up loop of the direct branch, over the indices \<open>0..<20\<close>: it removes
  chunk \<open>i\<close> while there is one and stops at the first index without.
\<close>

fun cleanup_chunks :: "string \<Rightarrow> localStorage \<Rightarrow> nat list \<Rightarrow> localStorage" where
  "cleanup_chunks key ls [] = ls"
| "cleanup_chunks key ls (i # rest) =
     (if truthy_string (getItem ls (chunk_key key i))
      then cleanup_chunks key (removeItem ls (chunk_key key i)) rest
      else ls)"

text \<open>
  The loop that stores the chunks, over the indices \<open>0..<chunks\<close>; a write the
  browser refuses ends it, with the chunks written so far left in the storage.
\<close>

fun store_chunks ::
  "quota \<Rightarrow> string \<Rightarrow> string \<Rightarrow> nat \<Rightarrow> localStorage \<Rightarrow> nat list \<Rightarrow> localStorage \<times> error option"
where
  "store_chunks quota key jsonString chunkSize ls [] = (ls, None)"
| "store_chunks quota key jsonString chunkSize ls (i # rest) =
     (case setItem quota ls (chunk_key key i)
             (substring jsonString (i * chunkSize) (i * chunkSize + chunkSize)) of
        Inl e \<Rightarrow> (ls, Some e)
      | Inr ls' \<Rightarrow> store_chunks quota key jsonString chunkSize ls' rest)"

definition saveToLocalStorage :: "quota \<Rightarrow> localStorage \<Rightarrow> string \<Rightarrow> jsvalue \<Rightarrow> localStorage \<times> bool" where
  "saveToLocalStorage quota ls key data =
     (case serialize data of
        Inl e \<Rightarrow> (ls, False)
      | Inr jsonString \<Rightarrow>
          if length jsonString < 2000000 then
            (case setItem quota ls key jsonString of
               Inl e \<Rightarrow> (ls, False)
             | Inr ls1 \<Rightarrow>
                 (let ls2 = cleanup_chunks key ls1 [0..<20];
                      ls3 = (if truthy_string (getItem ls2 (chunks_key key))
                             then removeItem ls2 (chunks_key key) else ls2)
                  in (ls3, True)))
          else
            (let chunkSize = 1000000;
                 chunks = ceil_div (length jsonString) chunkSize
             in case setItem quota ls (chunks_key key) (toString chunks) of
                  Inl e \<Rightarrow> (ls, False)
                | Inr ls1 \<Rightarrow>
                    (case store_chunks quota key jsonString chunkSize ls1 [0..<chunks] of
                       (ls2, Some e) \<Rightarrow> (ls2, False)
                     | (ls2, None) \<Rightarrow>
                         (case setItem quota ls2 key (''__CHUNKED__'' @ toString chunks) of
                            Inl e \<Rightarrow> (ls2, False)
                          | Inr ls3 \<Rightarrow> (ls3, True)))))"

subsection \<open>loadFromLocalStorage\<close>

text \<open>
  The loop that reads the chunks back, over the indices \<open>0..<chunks\<close>: a chunk
  that is missing (or empty) throws \<open>Error("Missing chunk i of chunks")\<close>.
\<close>

fun read_chunks :: "localStorage \<Rightarrow> string \<Rightarrow> nat \<Rightarrow> string \<Rightarrow> nat list \<Rightarrow> error + string" where
  "read_chunks ls key chunks jsonString [] = Inr jsonString"
| "read_chunks ls key chunks jsonString (i # rest) =
     (case getItem ls (chunk_key key i) of
        None \<Rightarrow> Inl (Error (''Missing chunk '' @ toString i @ '' of '' @ toString chunks))
      | Some chunk \<Rightarrow>
          if chunk \<noteq> [] then read_chunks ls key chunks (jsonString @ chunk) rest
          else Inl (Error (''Missing chunk '' @ toString i @ '' of '' @ toString chunks)))"

text \<open>
  The body of the \<open>try\<close> block: \<open>Inl\<close> is the exception it throws. With
  \<open>NaN\<close> chunks neither \<open>chunks <= 0\<close> holds nor does the loop run, and
  \<open>JSON.parse\<close> gets the empty string.
\<close>

definition load_try :: "localStorage \<Rightarrow> string \<Rightarrow> jsvalue \<Rightarrow> error + jsvalue" where
  "load_try ls key defaultValue =
     (case getItem ls key of
        None \<Rightarrow> Inr defaultValue
      | Some value \<Rightarrow>
          if prefix ''__CHUNKED__'' value then
            (case parseInt (case getItem ls (chunks_key key) of
                              None \<Rightarrow> ''0''
                            | Some c \<Rightarrow> if c = [] then ''0'' else c) of
               None \<Rightarrow> JSON_parse []
             | Some chunks \<Rightarrow>
                 if chunks \<le> 0 then Inr defaultValue
                 else (case read_chunks ls key (nat chunks) [] [0..<nat chunks] of
                         Inl e \<Rightarrow> Inl e
                       | Inr jsonString \<Rightarrow> JSON_parse jsonString))
          else JSON_parse value)"

definition loadFromLocalStorage :: "localStorage \<Rightarrow> string \<Rightarrow> jsvalue \<Rightarrow> jsvalue" where
  "loadFromLocalStorage ls key defaultValue =
     (case load_try ls key defaultValue of
        Inl e \<Rightarrow> defaultValue
      | Inr v \<Rightarrow> v)"

subsection \<open>Plain JSON data\<close>

text \<open>
  A value is plain JSON data when \<open>JSON.stringify\<close> loses nothing of it: it holds
  no \<open>undefined\<close> and no \<open>Date\<close>, and the keys of each object are distinct (as
  the keys of a JavaScript object are).
\<close>

fun json_plain :: "jsvalue \<Rightarrow> bool"
  and json_plain_elements :: "jsvalue list \<Rightarrow> bool"
  and json_plain_members :: "(string \<times> jsvalue) list \<Rightarrow> bool"
where
  "json_plain JUndefined = False"
| "json_plain JNull = True"
| "json_plain (JBool b) = True"
| "json_plain (JNum i) = True"
| "json_plain (JStr s) = True"
| "json_plain (JDate isoString) = False"
| "json_plain (JArr xs) = json_plain_elements xs"
| "json_plain (JObj kvs) = (distinct (map fst kvs) \<and> json_plain_members kvs)"
| "json_plain_elements [] = True"
| "json_plain_elements (x # xs) = (json_plain x \<and> json_plain_elements xs)"
| "json_plain_members [] = True"
| "json_plain_members ((k, v) # kvs) = (json_plain v \<and> json_plain_members kvs)"

text \<open>What follows a value inside a JSON text: nothing, a comma or a closing bracket.\<close>

definition value_end :: "string \<Rightarrow> bool" where
  "value_end rest =
     (case rest of [] \<Rightarrow> True | c # _ \<Rightarrow> c = CHR '','' \<or> c = CHR '']'' \<or> c = CHR ''}'')"

text \<open>The characters a serialized value can begin with.\<close>

definition value_start :: "char \<Rightarrow> bool" where
  "value_start c =
     (c = CHR ''['' \<or> c = CHR ''{'' \<or> c = CHR 0x22 \<or> c = CHR ''t'' \<or> c = CHR ''f''
      \<or> c = CHR ''n'' \<or> c = CHR ''-'' \<or> is_digit c)"

section \<open>Sample data\<close>

text \<open>Concrete quizzes, storages and a client state for the closed theorems below.\<close>

definition sampleQuestion :: Question where
  "sampleQuestion =
     \<lparr> question = ''What is 2 + 2?'', answerDescription = ''This is basic addition.'',
       options = [''3'', ''4'', ''5'', ''6''], correctAnswer = ''4'',
       questionImages = [], answerImages = [] \<rparr>"

definition incomingQuiz :: "string \<Rightarrow> string \<Rightarrow> int option \<Rightarrow> InsertQuiz" where
  "incomingQuiz u t v =
     \<lparr> uniqueId = Some u, title = Some t, description = Some ''This is a sample quiz.'',
       questions = Some [sampleQuestion], timer = Some 300, category = Some ''Mathematics'',
       history = None, createdAt = None, lastTaken = None, password = None,
       isPublic = None, createdBy = None, version = v \<rparr>"

text \<open>The same quiz as it stands in a request body, and the check of an
  integer column that bounds the value to 32 bits.\<close>

definition incomingJson :: "string \<Rightarrow> string \<Rightarrow> int option \<Rightarrow> QuizJson" where
  "incomingJson u t v =
     \<lparr> uniqueId = Some u, title = Some t, description = Some ''This is a sample quiz.'',
       questions = Some [sampleQuestion], timer = Some 300, category = Some ''Mathematics'',
       history = None, createdAt = None, lastTaken = None, password = None,
       isPublic = None, createdBy = None, version = v \<rparr>"

definition int32 :: "int \<Rightarrow> bool" where
  "int32 n = (- 2147483648 \<le> n \<and> n \<le> 2147483647)"

definition storedQuiz :: "nat \<Rightarrow> string \<Rightarrow> int \<Rightarrow> Quiz" where
  "storedQuiz i u v =
     \<lparr> uniqueId = Some u, title = Some ''Stored title'', description = Some ''Stored'',
       questions = Some [], timer = Some 60, category = Some ''Science'',
       history = None, createdAt = Some 1000, lastTaken = None, password = Some (Some ''secret''),
       isPublic = Some True, createdBy = None, version = Some v, quizId = i \<rparr>"

definition sampleEnv :: Env where
  "sampleEnv = \<lparr> uuidv4 = (\<lambda>n. ''generated''), newDate = (\<lambda>n. 2000) \<rparr>"

definition emptyStorage :: MemStorage where
  "emptyStorage = \<lparr> quizCollection = [], quizCurrentId = 1 \<rparr>"

definition oneQuizStorage :: "int \<Rightarrow> MemStorage" where
  "oneQuizStorage v = \<lparr> quizCollection = [(1, storedQuiz 1 ''x'' v)], quizCurrentId = 2 \<rparr>"


definition clientQuiz :: ClientQuiz where
  "clientQuiz =
     \<lparr> c_id = ''q-1'', c_title = ''Old title'', c_description = ''A quiz'',
       c_questions = [sampleQuestion], c_timer = 300, c_lastTaken = None,
       c_password = None, c_category = ''Mathematics'', c_history = Some [],
       c_createdAt = 1000, c_isPublic = False, c_version = Some 3 \<rparr>"

definition sampleApp :: QuizApp where
  "sampleApp =
     \<lparr> quizzes = [clientQuiz], quizToEdit = Some 0, newQuiz = emptyQuiz ''q-2'' 1000,
       newQuestions = [emptyQuestion], isEditMode = False, passwordInput = ''8387'',
       toast = None \<rparr>"

text \<open>The form after the password dialog, with a new title typed in.\<close>

definition editedApp :: QuizApp where
  "editedApp =
     (case handlePasswordSubmit sampleApp of
        Inr app \<Rightarrow> app \<lparr> newQuiz := (newQuiz app) \<lparr> c_title := ''New title'' \<rparr> \<rparr>
      | Inl _ \<Rightarrow> sampleApp)"

subsection \<open>Sample payloads and storages\<close>

text \<open>A browser that never refuses a write.\<close>

definition unlimited :: quota where
  "unlimited ls k v = True"

text \<open>
  A string of \<open>n\<close> letters, which serializes to \<open>n + 2\<close> characters, and two
  payloads that serialize to the same 500 characters: one holds a \<open>Date\<close>, the
  other the ISO string of that date.
\<close>

definition letters :: "nat \<Rightarrow> jsvalue" where
  "letters n = JStr (replicate n (CHR ''a''))"

definition isoEpoch :: string where
  "isoEpoch = ''1970-01-01T00:00:00.000Z''"

definition datedPayload :: jsvalue where
  "datedPayload = JArr [JDate isoEpoch, letters 469]"

definition loadedPayload :: jsvalue where
  "loadedPayload = JArr [JStr isoEpoch, letters 469]"

definition datedText :: string where
  "datedText = CHR ''['' # QuoteJSONString isoEpoch @ CHR '','' #
                 QuoteJSONString (replicate 469 (CHR ''a'')) @ '']''"

text \<open>A chunked entry of four chunks whose chunk 2 has been deleted.\<close>

definition brokenStore :: localStorage where
  "brokenStore = [''k'' \<mapsto> ''__CHUNKED__4'', chunks_key ''k'' \<mapsto> ''4'',
                  chunk_key ''k'' 0 \<mapsto> ''[1,'', chunk_key ''k'' 1 \<mapsto> ''2,'',
                  chunk_key ''k'' 3 \<mapsto> ''4]'']"

text \<open>
  The storage after a save of 21,000,000 serialized characters (21 chunks) under
  \<open>k\<close>, and after a small save under \<open>k\<close> that follows it.
\<close>

definition afterLargeSave :: localStorage where
  "afterLargeSave = fst (saveToLocalStorage unlimited Map.empty ''k'' (letters 20999998))"

definition afterSmallSave :: localStorage where
  "afterSmallSave = fst (saveToLocalStorage unlimited afterLargeSave ''k'' JNull)"


section \<open>Properties of the reconciliation\<close>

lemmas sample_defs = sampleQuestion_def incomingQuiz_def storedQuiz_def sampleEnv_def
  emptyStorage_def oneQuizStorage_def

lemmas schema_defs = insertQuizSchema_issues_def required_def QuizCategorySchema_issues_def
  date_issues_def nullable_date_issues_def integer_issues_def nullable_integer_issues_def int32_def
  incomingJson_def sampleQuestion_def

subsection \<open>The storage invariant\<close>

lemma find_Some_mem: "find P xs = Some x \<Longrightarrow> x \<in> set xs \<and> P x"
  by (induction xs) (auto split: if_splits)

lemma storage_ok_lookup:
  assumes "storage_ok st" "getQuizByUniqueId st u = Some e"
  shows "map_of (quizCollection st) (quizId e) = Some e \<and> uniqueId e = u"
proof -
  from assms(2) have m: "e \<in> snd ` set (quizCollection st)" and u: "uniqueId e = u"
    using find_Some_mem[of "\<lambda>quiz. uniqueId quiz = u" "map snd (quizCollection st)" e]
    by (auto simp: getQuizByUniqueId_def)
  then obtain k where k: "(k, e) \<in> set (quizCollection st)" by auto
  with assms(1) have "quizId e = k" by (auto simp: storage_ok_def list_all_iff)
  with k assms(1) have "map_of (quizCollection st) (quizId e) = Some e"
    by (auto simp: storage_ok_def)
  with u show ?thesis by simp
qed

lemma update_fresh: "k \<notin> fst ` set al \<Longrightarrow> AList.update k v al = al @ [(k, v)]"
  by (induction al) auto

lemma set_update_subset: "set (AList.update k v al) \<subseteq> insert (k, v) (set al)"
  by (induction al) auto

lemma createQuiz_ok: "storage_ok st \<Longrightarrow> storage_ok (fst (createQuiz env st q))"
  using set_update_subset[of "quizCurrentId st" _ "quizCollection st"]
  by (fastforce simp: storage_ok_def createQuiz_def Let_def list_all_iff AList.distinct_update)

lemma updateQuiz_ok: "storage_ok st \<Longrightarrow> map_of (quizCollection st) i = Some e \<Longrightarrow> quizId e = i \<Longrightarrow> storage_ok (fst (updateQuiz st i u))"
  using set_update_subset[of i _ "quizCollection st"]
  by (fastforce simp: storage_ok_def updateQuiz_def Let_def list_all_iff AList.distinct_update)

lemma sync_one_ok:
  assumes "storage_ok st"
  shows "storage_ok (fst (sync_one env st r))"
proof (cases "getQuizByUniqueId st (uniqueId r)")
  case None
  then show ?thesis using createQuiz_ok[OF assms, of env r]
    by (simp add: sync_one_def split_beta)
next
  case (Some x)
  from storage_ok_lookup[OF assms Some]
  have "map_of (quizCollection st) (quizId x) = Some x" by simp
  then have "storage_ok (fst (updateQuiz st (quizId x) r))"
    using assms by (intro updateQuiz_ok) auto
  then show ?thesis using Some assms by (simp add: sync_one_def)
qed

lemma createQuiz_frame:
  "storage_ok st \<Longrightarrow> map_of (quizCollection st) k = Some e \<Longrightarrow>
   map_of (quizCollection (fst (createQuiz env st q))) k = Some e"
  by (auto simp: createQuiz_def Let_def AList.update_conv' storage_ok_def list_all_iff dest!: map_of_SomeD)

lemma updateQuiz_frame:
  "i \<noteq> k \<Longrightarrow> map_of (quizCollection (fst (updateQuiz st i u))) k = map_of (quizCollection st) k"
  by (auto simp: updateQuiz_def Let_def AList.update_conv' split: option.splits)

lemma sync_one_frame:
  assumes "storage_ok st" "map_of (quizCollection st) k = Some e" "uniqueId r \<noteq> uniqueId e"
  shows "map_of (quizCollection (fst (sync_one env st r))) k = Some e"
proof (cases "getQuizByUniqueId st (uniqueId r)")
  case None
  then show ?thesis using createQuiz_frame[OF assms(1,2), of env r]
    by (simp add: sync_one_def split_beta)
next
  case (Some x)
  from storage_ok_lookup[OF assms(1) Some] have x: "map_of (quizCollection st) (quizId x) = Some x" "uniqueId x = uniqueId r"
    by auto
  with assms(2,3) have "quizId x \<noteq> k" by auto
  then show ?thesis using Some assms(2) by (simp add: sync_one_def updateQuiz_frame)
qed

lemma sync_loop_frame:
  assumes "storage_ok st" "map_of (quizCollection st) k = Some e" "\<forall>r\<in>set qs. uniqueId r \<noteq> uniqueId e"
  shows "map_of (quizCollection (fst (sync_loop env st synced qs))) k = Some e"
  using assms
proof (induction qs arbitrary: st synced)
  case Nil
  then show ?case by simp
next
  case (Cons r qs)
  have ok: "storage_ok (fst (sync_one env st r))" using Cons.prems(1) by (rule sync_one_ok)
  have fr: "map_of (quizCollection (fst (sync_one env st r))) k = Some e"
    using Cons.prems by (intro sync_one_frame) auto
  show ?case using Cons.IH[OF ok fr] Cons.prems(3)
    by (cases "sync_one env st r") (auto split: option.splits)
qed

lemma issues_enumerate:
  "concat (map (\<lambda>(i, q). map (Pair i) (f q)) (enumerate n body)) = [] \<longleftrightarrow> (\<forall>q\<in>set body. f q = [])"
  by (induction body arbitrary: n) auto

lemma sync_loop_length:
  "storage_ok st \<Longrightarrow> length (snd (sync_loop env st synced qs)) = length synced + length qs"
proof (induction qs arbitrary: st synced)
  case Nil then show ?case by simp
next
  case (Cons r qs)
  have ok: "storage_ok (fst (sync_one env st r))" using Cons.prems by (rule sync_one_ok)
  have "\<exists>p. snd (sync_one env st r) = Some p"
  proof (cases "getQuizByUniqueId st (uniqueId r)")
    case None then show ?thesis by (simp add: sync_one_def split_beta)
  next
    case (Some x)
    from storage_ok_lookup[OF Cons.prems Some] show ?thesis using Some
      by (simp add: sync_one_def updateQuiz_def Let_def)
  qed
  then obtain p where p: "snd (sync_one env st r) = Some p" ..
  show ?case using Cons.IH[OF ok, of "synced @ [p]"] p
    by (cases "sync_one env st r") auto
qed

lemma set_update_distinct:
  assumes "distinct (map fst al)"
  shows "(k', q) \<in> set (AList.update k v al) \<longleftrightarrow> (if k' = k then q = v else (k', q) \<in> set al)"
proof -
  have d: "distinct (map fst (AList.update k v al))" using assms by (rule AList.distinct_update)
  have "(k', q) \<in> set (AList.update k v al) \<longleftrightarrow> map_of (AList.update k v al) k' = Some q"
    using d by simp
  also have "\<dots> \<longleftrightarrow> ((map_of al)(k \<mapsto> v)) k' = Some q" by (simp only: AList.update_conv')
  also have "\<dots> \<longleftrightarrow> (if k' = k then q = v else (k', q) \<in> set al)"
    using assms by auto
  finally show ?thesis .
qed

lemma createQuiz_collection:
  "quizCollection (fst (createQuiz env st r))
   = AList.update (quizCurrentId st) (snd (createQuiz env st r)) (quizCollection st)"
  by (simp add: createQuiz_def Let_def)

lemma createQuiz_uniqueId:
  "truthy_string (uniqueId r) \<Longrightarrow> uniqueId (snd (createQuiz env st r)) = uniqueId r"
  by (simp add: createQuiz_def Let_def)

lemma updateQuiz_found:
  assumes "map_of (quizCollection st) i = Some e"
  shows "\<exists>e'. snd (updateQuiz st i r) = Some e'
            \<and> quizCollection (fst (updateQuiz st i r)) = AList.update i e' (quizCollection st)
            \<and> uniqueId e' = spread (uniqueId e) (uniqueId r)"
  using assms by (simp add: updateQuiz_def Let_def)

lemma sync_one_keeps_uniqueIds:
  assumes "storage_ok st" "q \<in> set (getAllQuizzes st)"
  shows "\<exists>q' \<in> set (getAllQuizzes (fst (sync_one env st r))). uniqueId q' = uniqueId q"
proof (cases "getQuizByUniqueId st (uniqueId r)")
  case None
  have "quizCurrentId st \<notin> fst ` set (quizCollection st)"
    using assms(1) by (auto simp: storage_ok_def list_all_iff)
  then have "quizCollection (fst (createQuiz env st r))
             = quizCollection st @ [(quizCurrentId st, snd (createQuiz env st r))]"
    unfolding createQuiz_collection by (rule update_fresh)
  then have "q \<in> set (getAllQuizzes (fst (sync_one env st r)))"
    using None assms(2) by (simp add: sync_one_def getAllQuizzes_def split_beta)
  then show ?thesis by blast
next
  case (Some e)
  from storage_ok_lookup[OF assms(1) Some]
  have l: "map_of (quizCollection st) (quizId e) = Some e" and u: "uniqueId e = uniqueId r" by auto
  show ?thesis
  proof (cases "incoming_wins (version e) (version r)")
    case False
    then have "fst (sync_one env st r) = st" using Some by (simp add: sync_one_def)
    then show ?thesis using assms(2) by auto
  next
    case True
    then have so: "sync_one env st r = updateQuiz st (quizId e) r"
      using Some by (simp add: sync_one_def)
    from updateQuiz_found[OF l, of r] obtain e' where
      coll: "quizCollection (fst (updateQuiz st (quizId e) r))
             = AList.update (quizId e) e' (quizCollection st)"
      and e': "uniqueId e' = spread (uniqueId e) (uniqueId r)" by blast
    have e'': "uniqueId e' = uniqueId e" using e' u by (simp add: spread_def split: option.splits)
    have d: "distinct (map fst (quizCollection st))" using assms(1) by (simp add: storage_ok_def)
    note mem = set_update_distinct[OF d, of _ _ "quizId e" e']
    have all: "set (getAllQuizzes (fst (sync_one env st r)))
               = snd ` set (AList.update (quizId e) e' (quizCollection st))"
      by (simp add: so getAllQuizzes_def coll)
    from assms(2) obtain k where k: "(k, q) \<in> set (quizCollection st)"
      by (auto simp: getAllQuizzes_def)
    show ?thesis
    proof (cases "(k, q) = (quizId e, e)")
      case True
      then have "uniqueId e' = uniqueId q" using e'' by simp
      moreover have "(quizId e, e') \<in> set (AList.update (quizId e) e' (quizCollection st))"
        by (simp add: mem)
      then have "e' \<in> set (getAllQuizzes (fst (sync_one env st r)))"
        unfolding all by (rule image_eqI[rotated]) simp
      ultimately show ?thesis by blast
    next
      case False
      have "k \<noteq> quizId e"
      proof
        assume "k = quizId e"
        then have "map_of (quizCollection st) (quizId e) = Some q" using k d by simp
        with l False \<open>k = quizId e\<close> show False by simp
      qed
      then have "(k, q) \<in> set (AList.update (quizId e) e' (quizCollection st))"
        using k by (simp add: mem)
      then have "q \<in> set (getAllQuizzes (fst (sync_one env st r)))"
        unfolding all by (rule image_eqI[rotated]) simp
      then show ?thesis by blast
    qed
  qed
qed

lemma sync_one_merges:
  assumes "storage_ok st" "truthy_string (uniqueId r)"
  shows "\<exists>q \<in> set (getAllQuizzes (fst (sync_one env st r))). uniqueId q = uniqueId r"
proof (cases "getQuizByUniqueId st (uniqueId r)")
  case None
  have "quizCurrentId st \<notin> fst ` set (quizCollection st)"
    using assms(1) by (auto simp: storage_ok_def list_all_iff)
  then have "quizCollection (fst (createQuiz env st r))
             = quizCollection st @ [(quizCurrentId st, snd (createQuiz env st r))]"
    unfolding createQuiz_collection by (rule update_fresh)
  then have "snd (createQuiz env st r) \<in> set (getAllQuizzes (fst (sync_one env st r)))"
    using None by (simp add: sync_one_def getAllQuizzes_def split_beta)
  then show ?thesis using createQuiz_uniqueId[OF assms(2)] by blast
next
  case (Some e)
  have "e \<in> set (getAllQuizzes st)" "uniqueId e = uniqueId r"
    using find_Some_mem[of "\<lambda>quiz. uniqueId quiz = uniqueId r" "map snd (quizCollection st)" e] Some
    by (auto simp: getQuizByUniqueId_def getAllQuizzes_def)
  then show ?thesis using sync_one_keeps_uniqueIds[OF assms(1), of e env r] by auto
qed

lemma sync_loop_ok: "storage_ok st \<Longrightarrow> storage_ok (fst (sync_loop env st synced qs))"
proof (induction qs arbitrary: st synced)
  case Nil then show ?case by simp
next
  case (Cons r qs)
  from sync_one_ok[OF Cons.prems, of env r] Cons.IH show ?case
    by (cases "sync_one env st r") (auto split: option.splits)
qed

lemma sync_loop_keeps_uniqueIds:
  "storage_ok st \<Longrightarrow> q \<in> set (getAllQuizzes st) \<Longrightarrow>
   \<exists>q' \<in> set (getAllQuizzes (fst (sync_loop env st synced qs))). uniqueId q' = uniqueId q"
proof (induction qs arbitrary: st synced q)
  case Nil then show ?case by auto
next
  case (Cons r qs)
  from sync_one_keeps_uniqueIds[OF Cons.prems, of env r] obtain q1 where
    q1: "q1 \<in> set (getAllQuizzes (fst (sync_one env st r)))" "uniqueId q1 = uniqueId q" by blast
  have ok: "storage_ok (fst (sync_one env st r))" by (rule sync_one_ok[OF Cons.prems(1)])
  show ?case using Cons.IH[OF ok q1(1)] q1(2)
    by (cases "sync_one env st r") (auto split: option.splits)
qed

lemma sync_loop_merges:
  "storage_ok st \<Longrightarrow> r \<in> set qs \<Longrightarrow> truthy_string (uniqueId r) \<Longrightarrow>
   \<exists>q \<in> set (getAllQuizzes (fst (sync_loop env st synced qs))). uniqueId q = uniqueId r"
proof (induction qs arbitrary: st synced)
  case Nil then show ?case by simp
next
  case (Cons a qs)
  have ok: "storage_ok (fst (sync_one env st a))" by (rule sync_one_ok[OF Cons.prems(1)])
  show ?case
  proof (cases "r = a")
    case True
    from sync_one_merges[OF Cons.prems(1), of a env] Cons.prems(3) True obtain q1 where
      q1: "q1 \<in> set (getAllQuizzes (fst (sync_one env st a)))" "uniqueId q1 = uniqueId r" by blast
    from sync_loop_keeps_uniqueIds[OF ok q1(1)] q1(2) show ?thesis
      by (cases "sync_one env st a") (auto split: option.splits)
  next
    case False
    with Cons.prems have "r \<in> set qs" by simp
    from Cons.IH[OF ok this Cons.prems(3)] show ?thesis
      by (cases "sync_one env st a") (auto split: option.splits)
  qed
qed

subsection \<open>A stored quiz that is newer than what comes in\<close>

lemma find_update_other:
  "map_of al k = Some old \<Longrightarrow> \<not> P old \<Longrightarrow> \<not> P v \<Longrightarrow>
   find P (map snd (AList.update k v al)) = find P (map snd al)"
  by (induction al) (auto split: if_splits)

lemma find_append_found: "find P xs = Some x \<Longrightarrow> find P (xs @ ys) = Some x"
  by (induction xs) (auto split: if_splits)

lemma sync_one_pushes:
  assumes "storage_ok st"
  shows "\<exists>p. snd (sync_one env st r) = Some p"
proof (cases "getQuizByUniqueId st (uniqueId r)")
  case None then show ?thesis by (simp add: sync_one_def split_beta)
next
  case (Some x)
  from storage_ok_lookup[OF assms Some] show ?thesis using Some
    by (simp add: sync_one_def updateQuiz_def Let_def)
qed

lemma sync_one_discards:
  assumes "getQuizByUniqueId st (uniqueId r) = Some e"
    and "version e = Some ve" and "ve \<noteq> 0"
    and "version r = Some vr" and "vr \<noteq> 0" and "vr < ve"
  shows "sync_one env st r = (st, Some e)"
  using assms by (simp add: sync_one_def incoming_wins_def truthy_number_def)

lemma sync_one_keeps_lookup:
  assumes "storage_ok st" "getQuizByUniqueId st u = Some e" "uniqueId r \<noteq> u"
  shows "getQuizByUniqueId (fst (sync_one env st r)) u = Some e"
proof (cases "getQuizByUniqueId st (uniqueId r)")
  case None
  have "quizCurrentId st \<notin> fst ` set (quizCollection st)"
    using assms(1) by (auto simp: storage_ok_def list_all_iff)
  then have "quizCollection (fst (createQuiz env st r))
             = quizCollection st @ [(quizCurrentId st, snd (createQuiz env st r))]"
    unfolding createQuiz_collection by (rule update_fresh)
  then show ?thesis using None assms(2)
    by (simp add: sync_one_def getQuizByUniqueId_def split_beta find_append_found)
next
  case (Some x)
  from storage_ok_lookup[OF assms(1) Some]
  have l: "map_of (quizCollection st) (quizId x) = Some x" and ux: "uniqueId x = uniqueId r" by auto
  show ?thesis
  proof (cases "incoming_wins (version x) (version r)")
    case False
    then show ?thesis using Some assms(2) by (simp add: sync_one_def)
  next
    case True
    from updateQuiz_found[OF l, of r] obtain x' where
      coll: "quizCollection (fst (updateQuiz st (quizId x) r))
             = AList.update (quizId x) x' (quizCollection st)"
      and x': "uniqueId x' = spread (uniqueId x) (uniqueId r)" by blast
    have "uniqueId x' = uniqueId r" using x' ux by (simp add: spread_def split: option.splits)
    then have "find (\<lambda>quiz. uniqueId quiz = u) (map snd (AList.update (quizId x) x' (quizCollection st)))
               = find (\<lambda>quiz. uniqueId quiz = u) (map snd (quizCollection st))"
      using l ux assms(3) by (intro find_update_other[where old = x]) auto
    then show ?thesis using Some True assms(2)
      by (simp add: sync_one_def getQuizByUniqueId_def coll)
  qed
qed

lemma sync_loop_synced:
  "sync_loop env st synced qs
   = (fst (sync_loop env st [] qs), synced @ snd (sync_loop env st [] qs))"
proof (induction qs arbitrary: st synced)
  case Nil then show ?case by simp
next
  case (Cons r qs)
  obtain st1 p where s: "sync_one env st r = (st1, p)" by (cases "sync_one env st r")
  show ?case
  proof (cases p)
    case None
    then show ?thesis using s Cons.IH[of st1 synced] by simp
  next
    case (Some y)
    then show ?thesis using s Cons.IH[of st1 "synced @ [y]"] Cons.IH[of st1 "[y]"] by simp
  qed
qed

lemma sync_loop_all_older:
  assumes "getQuizByUniqueId st u = Some e" "version e = Some ve" "ve \<noteq> 0"
    and "\<forall>r\<in>set qs. uniqueId r = u \<and> (\<exists>vr. version r = Some vr \<and> vr \<noteq> 0 \<and> vr < ve)"
  shows "sync_loop env st synced qs = (st, synced @ replicate (length qs) e)"
  using assms(4)
proof (induction qs arbitrary: synced)
  case Nil then show ?case by simp
next
  case (Cons r qs)
  from Cons.prems obtain vr where "uniqueId r = u" "version r = Some vr" "vr \<noteq> 0" "vr < ve" by auto
  with assms(1-3) have "sync_one env st r = (st, Some e)" by (intro sync_one_discards) auto
  then show ?case using Cons.IH[of "synced @ [e]"] Cons.prems
    by (simp add: replicate_app_Cons_same)
qed

lemma sync_loop_older:
  assumes "version e = Some ve" "ve \<noteq> 0"
    and "storage_ok st" "getQuizByUniqueId st u = Some e"
    and "\<forall>r\<in>set qs. uniqueId r = u \<longrightarrow> (\<exists>vr. version r = Some vr \<and> vr \<noteq> 0 \<and> vr < ve)"
  shows "storage_ok (fst (sync_loop env st [] qs))
         \<and> getQuizByUniqueId (fst (sync_loop env st [] qs)) u = Some e
         \<and> (\<forall>i<length qs. uniqueId (qs ! i) = u \<longrightarrow> snd (sync_loop env st [] qs) ! i = e)"
  using assms(3-5)
proof (induction qs arbitrary: st)
  case Nil then show ?case by simp
next
  case (Cons r qs)
  from sync_one_pushes[OF Cons.prems(1), of env r] obtain st1 p where
    s: "sync_one env st r = (st1, Some p)" by (cases "sync_one env st r") auto
  have ok1: "storage_ok st1" using sync_one_ok[OF Cons.prems(1), of env r] s by simp
  have same: "uniqueId r = u \<Longrightarrow> st1 = st \<and> p = e"
  proof -
    assume a: "uniqueId r = u"
    with Cons.prems(3) obtain vr where "version r = Some vr" "vr \<noteq> 0" "vr < ve" by auto
    with a Cons.prems(2) assms(1,2) have "sync_one env st r = (st, Some e)"
      by (intro sync_one_discards) auto
    with s show ?thesis by simp
  qed
  have l1: "getQuizByUniqueId st1 u = Some e"
  proof (cases "uniqueId r = u")
    case True with same Cons.prems(2) show ?thesis by simp
  next
    case False
    from sync_one_keeps_lookup[OF Cons.prems(1,2) False, of env] s show ?thesis by simp
  qed
  have rest: "\<forall>r\<in>set qs. uniqueId r = u \<longrightarrow> (\<exists>vr. version r = Some vr \<and> vr \<noteq> 0 \<and> vr < ve)"
    using Cons.prems(3) by simp
  note IH = Cons.IH[OF ok1 l1 rest]
  have loop: "sync_loop env st [] (r # qs)
              = (fst (sync_loop env st1 [] qs), p # snd (sync_loop env st1 [] qs))"
    using s sync_loop_synced[of env st1 "[p]" qs] by simp
  have "\<forall>i<length (r # qs). uniqueId ((r # qs) ! i) = u \<longrightarrow> (p # snd (sync_loop env st1 [] qs)) ! i = e"
  proof (intro allI impI)
    fix i assume "i < length (r # qs)" "uniqueId ((r # qs) ! i) = u"
    then show "(p # snd (sync_loop env st1 [] qs)) ! i = e"
      using same IH by (cases i) auto
  qed
  then show ?case using IH loop by simp
qed

subsection \<open>What the insert schema lets through\<close>

text \<open>
  The parsed quiz keeps the \<open>uniqueId\<close> of the body's; a quiz of the body that
  carries \<open>createdAt\<close>, or text under \<open>lastTaken\<close>, does not pass, and a body
  with such a quiz is answered with 400.
\<close>

lemma insertQuizSchema_data_uniqueId: "uniqueId (insertQuizSchema_data q) = uniqueId q"
  by (simp add: insertQuizSchema_data_def)

lemma insertQuizSchema_refuses_dates:
  "createdAt q \<noteq> None \<or> (\<exists>t. lastTaken q = Some (Some t))
   \<Longrightarrow> insertQuizSchema_issues integerColumn q \<noteq> []"
  by (auto simp: insertQuizSchema_issues_def date_issues_def nullable_date_issues_def)

lemma sync_route_refuses_createdAt:
  "sync_route int32 sampleEnv emptyStorage
     [(incomingJson ''a'' ''First'' (Some 1)) \<lparr> createdAt := Some ''2024-01-01T00:00:00.000Z'' \<rparr>]
   = (emptyStorage, \<lparr> status = 400, json = InvalidData ''Invalid sync data'' [(0, ''createdAt'')] \<rparr>)"
  by (simp add: sync_route_def syncQuizSchema_parse_def schema_defs enumerate_eq_zip upt_rec)

lemma editedApp_eval: "map (\<lambda>q. (c_title q, c_version q)) (quizzes (handleUpdateQuiz ''q-3'' 2000 editedApp)) = [(''New title'', Some 3)]"
  by (simp add: editedApp_def handlePasswordSubmit_def sampleApp_def clientQuiz_def MASTER_PASSWORD_def
      truthy_string_def truthy_number_def handleUpdateQuiz_def trim_def js_whitespace_def filled_def
      sampleQuestion_def enumerate_eq_zip upt_rec)

subsection \<open>Claims about the reconciliation\<close>

text \<open>
  C1 (as amended). The sync route validates the whole batch before the storage is
  touched. A quiz of the body is malformed when a required property is missing,
  when its category is not 1 to 50 characters long, when it carries \<open>createdAt\<close>
  or a \<open>lastTaken\<close> other than \<open>null\<close> (in a JSON body these are text, and the
  schema wants a \<open>Date\<close>), or when an integer property fails the check of the
  integer columns. When no quiz of the body is malformed, the route runs
  \<open>syncQuizzes\<close> on the parsed quizzes and answers 200; no quiz of the body
  carries a time stamp then, \<open>syncQuizzes\<close> pushes one synced row per incoming
  quiz, and afterwards the storage holds a quiz with the \<open>uniqueId\<close> of each
  incoming quiz that has one. When some quiz of the body is malformed, the route
  answers 400 "Invalid sync data" with the issues found and the storage is
  unchanged: nothing of the batch is merged.
\<close>

theorem sync_route_validates_whole_batch:
  "if \<forall>q\<in>set body. insertQuizSchema_issues integerColumn q = []
   then sync_route integerColumn env st body =
          (fst (syncQuizzes env st (map insertQuizSchema_data body)),
           \<lparr> status = 200,
             json = Quizzes (getPublicQuizzes
                      (fst (syncQuizzes env st (map insertQuizSchema_data body)))) \<rparr>)
        \<and> (\<forall>q\<in>set body. createdAt q = None \<and> (lastTaken q = None \<or> lastTaken q = Some None))
        \<and> (storage_ok st \<longrightarrow>
              length (snd (syncQuizzes env st (map insertQuizSchema_data body))) = length body
              \<and> (\<forall>q\<in>set body. truthy_string (uniqueId q) \<longrightarrow>
                    (\<exists>row\<in>set (getAllQuizzes
                                  (fst (syncQuizzes env st (map insertQuizSchema_data body)))).
                        uniqueId row = uniqueId q)))
   else fst (sync_route integerColumn env st body) = st
        \<and> status (snd (sync_route integerColumn env st body)) = 400
        \<and> (\<exists>errors. errors \<noteq> [] \<and>
              json (snd (sync_route integerColumn env st body))
                = InvalidData ''Invalid sync data'' errors)"
proof (cases "\<forall>q\<in>set body. insertQuizSchema_issues integerColumn q = []")
  case True
  let ?qs = "map insertQuizSchema_data body"
  from True have "syncQuizSchema_parse integerColumn body = Inr ?qs"
    by (simp add: syncQuizSchema_parse_def issues_enumerate del: concat_eq_Nil_conv)
  then have r: "sync_route integerColumn env st body =
          (fst (syncQuizzes env st ?qs),
           \<lparr> status = 200, json = Quizzes (getPublicQuizzes (fst (syncQuizzes env st ?qs))) \<rparr>)"
    by (simp add: sync_route_def split_beta)
  have d: "\<forall>q\<in>set body. createdAt q = None \<and> (lastTaken q = None \<or> lastTaken q = Some None)"
  proof
    fix q assume "q \<in> set body"
    with True have "insertQuizSchema_issues integerColumn q = []" by simp
    then show "createdAt q = None \<and> (lastTaken q = None \<or> lastTaken q = Some None)"
      by (auto simp: insertQuizSchema_issues_def date_issues_def nullable_date_issues_def
          split: option.splits)
  qed
  have m: "storage_ok st \<longrightarrow>
              length (snd (syncQuizzes env st ?qs)) = length body
              \<and> (\<forall>q\<in>set body. truthy_string (uniqueId q) \<longrightarrow>
                    (\<exists>row\<in>set (getAllQuizzes (fst (syncQuizzes env st ?qs))).
                        uniqueId row = uniqueId q))"
  proof (intro impI conjI ballI)
    assume ok: "storage_ok st"
    from sync_loop_length[OF ok, of env "[]" ?qs]
    show "length (snd (syncQuizzes env st ?qs)) = length body" by (simp add: syncQuizzes_def)
    fix q assume q: "q \<in> set body" "truthy_string (uniqueId q)"
    then have "insertQuizSchema_data q \<in> set ?qs"
      "truthy_string (uniqueId (insertQuizSchema_data q))"
      by (simp_all add: insertQuizSchema_data_uniqueId)
    from sync_loop_merges[OF ok this, of env "[]"]
    show "\<exists>row\<in>set (getAllQuizzes (fst (syncQuizzes env st ?qs))). uniqueId row = uniqueId q"
      by (simp add: syncQuizzes_def insertQuizSchema_data_uniqueId)
  qed
  show ?thesis using True r d m by simp
next
  case False
  then obtain errors where "syncQuizSchema_parse integerColumn body = Inl (ZodError errors)" "errors \<noteq> []"
    by (auto simp add: syncQuizSchema_parse_def issues_enumerate Let_def simp del: concat_eq_Nil_conv)
  then show ?thesis using False by (simp add: sync_route_def)
qed

theorem sync_route_validates_whole_batch_witness:
  "fst (sync_route int32 sampleEnv emptyStorage
     [incomingJson ''a'' ''First'' (Some 1),
      (incomingJson ''b'' ''Second'' (Some 1)) \<lparr> title := None \<rparr>]) = emptyStorage
   \<and> status (snd (sync_route int32 sampleEnv emptyStorage
     [incomingJson ''a'' ''First'' (Some 1),
      (incomingJson ''b'' ''Second'' (Some 1)) \<lparr> title := None \<rparr>])) = 400
   \<and> status (snd (sync_route int32 sampleEnv emptyStorage
     [incomingJson ''a'' ''First'' (Some 1), incomingJson ''b'' ''Second'' (Some 1)])) = 200
   \<and> length (snd (syncQuizzes sampleEnv emptyStorage
        (map insertQuizSchema_data
           [incomingJson ''a'' ''First'' (Some 1), incomingJson ''b'' ''Second'' (Some 1)]))) = 2
   \<and> Some ''b'' \<in> uniqueId ` set (getAllQuizzes (fst (syncQuizzes sampleEnv emptyStorage
        (map insertQuizSchema_data
           [incomingJson ''a'' ''First'' (Some 1), incomingJson ''b'' ''Second'' (Some 1)]))))"
proof -
  have ok: "storage_ok emptyStorage" by (simp add: storage_ok_def emptyStorage_def)
  from sync_route_validates_whole_batch[of "[incomingJson ''a'' ''First'' (Some 1),
      (incomingJson ''b'' ''Second'' (Some 1)) \<lparr> title := None \<rparr>]" int32 sampleEnv emptyStorage]
    sync_route_validates_whole_batch[of
      "[incomingJson ''a'' ''First'' (Some 1), incomingJson ''b'' ''Second'' (Some 1)]"
      int32 sampleEnv emptyStorage] ok
  show ?thesis by (force simp add: schema_defs truthy_string_def)
qed

text \<open>
  C1 as stated fails: of three records the second lacks its title, and the two
  well-formed ones are not merged either.
\<close>

theorem sync_route_rejects_batch_counterexample:
  "sync_route int32 sampleEnv emptyStorage
     [incomingJson ''a'' ''First'' (Some 1),
      (incomingJson ''b'' ''Second'' (Some 1)) \<lparr> title := None \<rparr>,
      incomingJson ''c'' ''Third'' (Some 1)]
   = (emptyStorage, \<lparr> status = 400, json = InvalidData ''Invalid sync data'' [(1, ''title'')] \<rparr>)"
  by (simp add: sync_route_def syncQuizSchema_parse_def schema_defs enumerate_eq_zip upt_rec)

text \<open>
  C2 (as amended). Every update of a stored quiz through \<open>updateQuiz\<close> (an accepted
  sync update or a PUT) stores the previous version plus 1, and 1 when the previous
  version is unset; \<open>createQuiz\<close> stores the version the incoming record carries
  when that is set and not zero, and 1 otherwise.
\<close>

theorem updateQuiz_increments_version:
  "(getQuiz st i = Some q \<longrightarrow>
      (\<exists>q'. snd (updateQuiz st i u) = Some q'
           \<and> getQuiz (fst (updateQuiz st i u)) i = Some q'
           \<and> version q' = Some (case version q of None \<Rightarrow> 1 | Some v \<Rightarrow> v + 1)))
   \<and> version (snd (createQuiz env st quiz)) =
        Some (case version quiz of None \<Rightarrow> 1 | Some v \<Rightarrow> if v = 0 then 1 else v)"
  by (auto simp: getQuiz_def updateQuiz_def createQuiz_def Let_def truthy_number_def
      AList.update_conv' split: option.splits)

theorem updateQuiz_increments_version_witness:
  "getQuiz (oneQuizStorage 3) 1 = Some (storedQuiz 1 ''x'' 3)
   \<and> (\<exists>q'. snd (updateQuiz (oneQuizStorage 3) 1 (incomingQuiz ''x'' ''T'' None)) = Some q'
         \<and> version q' = Some 4)"
  using updateQuiz_increments_version[of "oneQuizStorage 3" 1 "storedQuiz 1 ''x'' 3" "incomingQuiz ''x'' ''T'' None"]
  by (auto simp: getQuiz_def oneQuizStorage_def storedQuiz_def)

text \<open>
  C2 as stated fails: a quiz created from a record that carries version 5 starts at
  5, and an edit in the client changes the title and leaves the version at 3.
\<close>

theorem version_counterexample:
  "version (snd (createQuiz sampleEnv emptyStorage (incomingQuiz ''a'' ''First'' (Some 5)))) = Some 5
   \<and> map (\<lambda>q. (c_title q, c_version q)) (quizzes sampleApp) = [(''Old title'', Some 3)]
   \<and> map (\<lambda>q. (c_title q, c_version q)) (quizzes (handleUpdateQuiz ''q-3'' 2000 editedApp))
       = [(''New title'', Some 3)]"
  using editedApp_eval
  by (simp add: createQuiz_def Let_def sample_defs sampleApp_def clientQuiz_def)

text \<open>
  C3 (as amended). When the storage holds a quiz with the incoming record's
  \<open>uniqueId\<close> and the incoming version is greater or equal, or either version is
  unset, \<open>syncQuizzes\<close> overwrites every property the incoming record carries and
  keeps the stored value of every property it omits; the stored version becomes the
  previous version plus 1 (1 when it was unset), which is strictly greater than the
  previous version. A tie is inside the hypothesis, so it favours the incoming
  record; the witness is existing version 3 against incoming version 5.
\<close>

theorem sync_incoming_wins:
  assumes "storage_ok st"
    and "getQuizByUniqueId st (uniqueId r) = Some e"
    and "incoming_wins (version e) (version r)"
  shows "\<exists>st' u. syncQuizzes env st [r] = (st', [u])
           \<and> getQuiz st' (quizId e) = Some u
           \<and> quizId u = quizId e
           \<and> uniqueId u = spread (uniqueId e) (uniqueId r)
           \<and> title u = spread (title e) (title r)
           \<and> description u = spread (description e) (description r)
           \<and> questions u = spread (questions e) (questions r)
           \<and> timer u = spread (timer e) (timer r)
           \<and> category u = spread (category e) (category r)
           \<and> history u = spread (history e) (history r)
           \<and> createdAt u = spread (createdAt e) (createdAt r)
           \<and> lastTaken u = spread (lastTaken e) (lastTaken r)
           \<and> password u = spread (password e) (password r)
           \<and> isPublic u = spread (isPublic e) (isPublic r)
           \<and> createdBy u = spread (createdBy e) (createdBy r)
           \<and> version u = Some (case version e of None \<Rightarrow> 1 | Some v \<Rightarrow> v + 1)
           \<and> (\<forall>v. version e = Some v \<longrightarrow> (\<exists>v'. version u = Some v' \<and> v < v'))"
proof -
  from storage_ok_lookup[OF assms(1,2)]
  have l: "map_of (quizCollection st) (quizId e) = Some e" by simp
  show ?thesis using assms(2,3) l
    by (auto simp: syncQuizzes_def sync_one_def updateQuiz_def Let_def getQuiz_def
        AList.update_conv' truthy_number_def split: option.splits)
qed

theorem sync_incoming_wins_witness:
  "storage_ok (oneQuizStorage 3)
   \<and> getQuizByUniqueId (oneQuizStorage 3) (uniqueId (incomingQuiz ''x'' ''Newer'' (Some 5)))
       = Some (storedQuiz 1 ''x'' 3)
   \<and> incoming_wins (version (storedQuiz 1 ''x'' 3)) (version (incomingQuiz ''x'' ''Newer'' (Some 5)))
   \<and> (\<exists>st' u. syncQuizzes sampleEnv (oneQuizStorage 3) [incomingQuiz ''x'' ''Newer'' (Some 5)] = (st', [u])
         \<and> title u = Some ''Newer'' \<and> version u = Some 4)"
proof -
  have a: "storage_ok (oneQuizStorage 3)"
    by (simp add: storage_ok_def oneQuizStorage_def storedQuiz_def)
  have b: "getQuizByUniqueId (oneQuizStorage 3) (uniqueId (incomingQuiz ''x'' ''Newer'' (Some 5)))
       = Some (storedQuiz 1 ''x'' 3)"
    by (simp add: getQuizByUniqueId_def oneQuizStorage_def storedQuiz_def incomingQuiz_def)
  have c: "incoming_wins (version (storedQuiz 1 ''x'' 3)) (version (incomingQuiz ''x'' ''Newer'' (Some 5)))"
    by (simp add: incoming_wins_def storedQuiz_def incomingQuiz_def)
  from sync_incoming_wins[OF a b c, of sampleEnv] a b c show ?thesis
    by (auto simp: spread_def incomingQuiz_def storedQuiz_def)
qed

text \<open>
  C3 as stated fails: the incoming record wins and carries neither a password nor a
  visibility flag, and the stored quiz keeps its old password and flag next to the
  new title.
\<close>

theorem sync_keeps_omitted_fields_counterexample:
  "incoming_wins (version (storedQuiz 1 ''x'' 3)) (version (incomingQuiz ''x'' ''Newer'' (Some 5)))
   \<and> password (incomingQuiz ''x'' ''Newer'' (Some 5)) = None
   \<and> map (\<lambda>q. (title q, password q, isPublic q, version q))
         (getAllQuizzes (fst (syncQuizzes sampleEnv (oneQuizStorage 3) [incomingQuiz ''x'' ''Newer'' (Some 5)])))
       = [(Some ''Newer'', Some (Some ''secret''), Some True, Some 4)]"
  by (simp add: syncQuizzes_def sync_one_def getQuizByUniqueId_def incoming_wins_def truthy_number_def
      updateQuiz_def Let_def spread_def getAllQuizzes_def sample_defs)

text \<open>
  C4 (as amended). The storage holds a quiz whose version is set and not zero, and
  every incoming record of the batch that carries its \<open>uniqueId\<close> has a version
  that is set, not zero and strictly smaller. Then \<open>syncQuizzes\<close> discards each
  of these records: the stored quiz is pushed in its place, and after the batch
  the quiz is still stored under its id, with the same content and the same
  version, whatever the other records of the batch create or update. When the
  batch holds no other record (the pair of the claim is the batch of one), the
  whole storage is as it was. The test of the code, \<open>!version\<close>, reads a version
  of 0 as unset, which is why "set" is not enough.
\<close>

theorem sync_older_discarded:
  assumes "getQuizByUniqueId st u = Some e"
    and "version e = Some ve" and "ve \<noteq> 0"
    and "\<forall>r\<in>set incoming. uniqueId r = u \<longrightarrow> (\<exists>vr. version r = Some vr \<and> vr \<noteq> 0 \<and> vr < ve)"
  shows "((\<forall>r\<in>set incoming. uniqueId r = u) \<longrightarrow>
            syncQuizzes env st incoming = (st, replicate (length incoming) e))
         \<and> (storage_ok st \<longrightarrow>
              getQuiz (fst (syncQuizzes env st incoming)) (quizId e) = Some e
              \<and> getQuizByUniqueId (fst (syncQuizzes env st incoming)) u = Some e
              \<and> length (snd (syncQuizzes env st incoming)) = length incoming
              \<and> (\<forall>i<length incoming. uniqueId (incoming ! i) = u \<longrightarrow>
                    snd (syncQuizzes env st incoming) ! i = e))"
proof (intro conjI impI)
  assume "\<forall>r\<in>set incoming. uniqueId r = u"
  with assms(4) have "\<forall>r\<in>set incoming. uniqueId r = u \<and> (\<exists>vr. version r = Some vr \<and> vr \<noteq> 0 \<and> vr < ve)"
    by auto
  from sync_loop_all_older[OF assms(1-3) this, of env "[]"]
  show "syncQuizzes env st incoming = (st, replicate (length incoming) e)"
    by (simp add: syncQuizzes_def)
next
  assume ok: "storage_ok st"
  note l = sync_loop_older[OF assms(2,3) ok assms(1,4), of env]
  from l storage_ok_lookup[of "fst (sync_loop env st [] incoming)" u e]
  show "getQuiz (fst (syncQuizzes env st incoming)) (quizId e) = Some e"
    by (simp add: syncQuizzes_def getQuiz_def)
  from l show "getQuizByUniqueId (fst (syncQuizzes env st incoming)) u = Some e"
    by (simp add: syncQuizzes_def)
  from sync_loop_length[OF ok, of env "[]" incoming]
  show "length (snd (syncQuizzes env st incoming)) = length incoming"
    by (simp add: syncQuizzes_def)
  from l show "\<forall>i<length incoming. uniqueId (incoming ! i) = u \<longrightarrow>
                    snd (syncQuizzes env st incoming) ! i = e"
    by (simp add: syncQuizzes_def)
qed

theorem sync_older_discarded_witness:
  "getQuizByUniqueId (oneQuizStorage 5) (Some ''x'') = Some (storedQuiz 1 ''x'' 5)
   \<and> version (storedQuiz 1 ''x'' 5) = Some 5
   \<and> version (incomingQuiz ''x'' ''Older'' (Some 3)) = Some 3
   \<and> syncQuizzes sampleEnv (oneQuizStorage 5) [incomingQuiz ''x'' ''Older'' (Some 3)]
       = (oneQuizStorage 5, [storedQuiz 1 ''x'' 5])
   \<and> storage_ok (oneQuizStorage 5)
   \<and> getQuiz (fst (syncQuizzes sampleEnv (oneQuizStorage 5)
         [incomingQuiz ''y'' ''Other'' (Some 9), incomingQuiz ''x'' ''Older'' (Some 3)])) 1
       = Some (storedQuiz 1 ''x'' 5)
   \<and> snd (syncQuizzes sampleEnv (oneQuizStorage 5)
         [incomingQuiz ''y'' ''Other'' (Some 9), incomingQuiz ''x'' ''Older'' (Some 3)]) ! 1
       = storedQuiz 1 ''x'' 5"
proof -
  have a: "storage_ok (oneQuizStorage 5)"
    by (simp add: storage_ok_def oneQuizStorage_def storedQuiz_def)
  have b: "getQuizByUniqueId (oneQuizStorage 5) (Some ''x'') = Some (storedQuiz 1 ''x'' 5)"
    by (simp add: getQuizByUniqueId_def oneQuizStorage_def storedQuiz_def)
  have c: "version (storedQuiz 1 ''x'' 5) = Some 5" by (simp add: storedQuiz_def)
  have d: "version (incomingQuiz ''x'' ''Older'' (Some 3)) = Some 3" by (simp add: incomingQuiz_def)
  have n: "(5::int) \<noteq> 0" by simp
  have one: "\<forall>r\<in>set [incomingQuiz ''x'' ''Older'' (Some 3)].
               uniqueId r = Some ''x'' \<longrightarrow> (\<exists>vr. version r = Some vr \<and> vr \<noteq> 0 \<and> vr < 5)"
    by (simp add: incomingQuiz_def)
  have two: "\<forall>r\<in>set [incomingQuiz ''y'' ''Other'' (Some 9), incomingQuiz ''x'' ''Older'' (Some 3)].
               uniqueId r = Some ''x'' \<longrightarrow> (\<exists>vr. version r = Some vr \<and> vr \<noteq> 0 \<and> vr < 5)"
    by (simp add: incomingQuiz_def)
  have i: "quizId (storedQuiz 1 ''x'' 5) = 1" by (simp add: storedQuiz_def)
  have u: "uniqueId (incomingQuiz ''x'' ''Older'' (Some 3)) = Some ''x''" by (simp add: incomingQuiz_def)
  from sync_older_discarded[OF b c n one, of sampleEnv]
       sync_older_discarded[OF b c n two, of sampleEnv] a b c d i u
  show ?thesis by simp
qed

text \<open>
  C4 as stated fails: the stored version 5 is strictly greater than the incoming
  version 0 and both are set, and the incoming record overwrites the stored quiz,
  which comes out with the incoming title and version 6.
\<close>

theorem sync_zero_version_counterexample:
  "getQuizByUniqueId (oneQuizStorage 5) (uniqueId (incomingQuiz ''x'' ''Zero'' (Some 0)))
       = Some (storedQuiz 1 ''x'' 5)
   \<and> version (storedQuiz 1 ''x'' 5) = Some 5
   \<and> version (incomingQuiz ''x'' ''Zero'' (Some 0)) = Some 0
   \<and> map (\<lambda>q. (title q, version q)) (getAllQuizzes (oneQuizStorage 5)) = [(Some ''Stored title'', Some 5)]
   \<and> map (\<lambda>q. (title q, version q))
         (getAllQuizzes (fst (syncQuizzes sampleEnv (oneQuizStorage 5) [incomingQuiz ''x'' ''Zero'' (Some 0)])))
       = [(Some ''Zero'', Some 6)]"
  by (simp add: syncQuizzes_def sync_one_def getQuizByUniqueId_def incoming_wins_def truthy_number_def
      updateQuiz_def Let_def spread_def getAllQuizzes_def sample_defs)

text \<open>
  C5. A stored quiz whose \<open>uniqueId\<close> no incoming record carries is left untouched
  by \<open>syncQuizzes\<close>: it is still stored under its id, unchanged, afterwards.
\<close>

theorem sync_leaves_absent_untouched:
  assumes "storage_ok st"
    and "getQuiz st k = Some e"
    and "\<forall>r\<in>set incoming. uniqueId r \<noteq> uniqueId e"
  shows "getQuiz (fst (syncQuizzes env st incoming)) k = Some e
         \<and> e \<in> set (getAllQuizzes (fst (syncQuizzes env st incoming)))"
proof -
  have "map_of (quizCollection (fst (sync_loop env st [] incoming))) k = Some e"
    using assms by (intro sync_loop_frame) (auto simp: getQuiz_def)
  then show ?thesis
    by (auto simp: getQuiz_def syncQuizzes_def getAllQuizzes_def dest!: map_of_SomeD intro: image_eqI[where x="(k, e)"])
qed

theorem sync_leaves_absent_untouched_witness:
  "storage_ok (oneQuizStorage 3)
   \<and> getQuiz (oneQuizStorage 3) 1 = Some (storedQuiz 1 ''x'' 3)
   \<and> uniqueId (incomingQuiz ''y'' ''Other'' (Some 9)) \<noteq> uniqueId (storedQuiz 1 ''x'' 3)
   \<and> uniqueId (incomingQuiz ''z'' ''More'' None) \<noteq> uniqueId (storedQuiz 1 ''x'' 3)
   \<and> getQuiz (fst (syncQuizzes sampleEnv (oneQuizStorage 3)
         [incomingQuiz ''y'' ''Other'' (Some 9), incomingQuiz ''z'' ''More'' None])) 1
       = Some (storedQuiz 1 ''x'' 3)"
proof -
  have a: "storage_ok (oneQuizStorage 3)"
    by (simp add: storage_ok_def oneQuizStorage_def storedQuiz_def)
  have b: "getQuiz (oneQuizStorage 3) 1 = Some (storedQuiz 1 ''x'' 3)"
    by (simp add: getQuiz_def oneQuizStorage_def)
  have c: "\<forall>r\<in>set [incomingQuiz ''y'' ''Other'' (Some 9), incomingQuiz ''z'' ''More'' None].
         uniqueId r \<noteq> uniqueId (storedQuiz 1 ''x'' 3)"
    by (simp add: incomingQuiz_def storedQuiz_def)
  from sync_leaves_absent_untouched[OF a b c, of sampleEnv] a b c show ?thesis by simp
qed

section \<open>Properties of the chunked persistence\<close>

declare toString.simps [simp del]

subsection \<open>Decimal strings and keys\<close>

lemma digit_char_props: "d < 10 \<Longrightarrow> is_digit (digit_char d) \<and> digit_val (digit_char d) = d"
  by (simp add: is_digit_def digit_val_def digit_char_def)

lemma toString_all_digits: "list_all is_digit (toString n)"
proof (induction n rule: toString.induct)
  case (1 n)
  show ?case
  proof (cases "n < 10")
    case True
    then show ?thesis by (subst toString.simps) (simp add: digit_char_props)
  next
    case False
    then show ?thesis using 1 by (subst toString.simps) (simp add: digit_char_props)
  qed
qed

lemma toString_nonempty: "toString n \<noteq> []"
  by (subst toString.simps) simp

lemma digits_value_snoc: "digits_value (ds @ [c]) = digits_value ds * 10 + digit_val c"
  by (simp add: digits_value_def)

lemma digits_value_toString: "digits_value (toString n) = n"
proof (induction n rule: toString.induct)
  case (1 n)
  show ?case
  proof (cases "n < 10")
    case True
    then show ?thesis by (subst toString.simps) (simp add: digits_value_def digit_char_props)
  next
    case False
    then show ?thesis using 1
      by (subst toString.simps) (simp add: digits_value_snoc digit_char_props)
  qed
qed

lemma toString_inj: "toString m = toString n \<Longrightarrow> m = n"
  by (metis digits_value_toString)

lemma digit_not_sign_or_space:
  "is_digit c \<Longrightarrow> \<not> js_whitespace c \<and> c \<noteq> CHR ''-'' \<and> c \<noteq> CHR ''+''"
  by (auto simp: is_digit_def js_whitespace_def)

lemma parseInt_toString: "parseInt (toString n) = Some (int n)"
proof -
  obtain c cs where s: "toString n = c # cs" using toString_nonempty[of n] by (cases "toString n") auto
  have d: "list_all is_digit (c # cs)" using toString_all_digits[of n] s by simp
  then have c: "\<not> js_whitespace c" "c \<noteq> CHR ''-''" "c \<noteq> CHR ''+''"
    using digit_not_sign_or_space[of c] by auto
  have t: "takeWhile is_digit (c # cs) = c # cs" using d by (simp add: list_all_iff)
  have v: "digits_value (c # cs) = n" using digits_value_toString[of n] s by simp
  show ?thesis unfolding parseInt_def Let_def s using c
    by (simp add: t v del: takeWhile.simps)
qed

lemma chunk_key_inj: "chunk_key key i = chunk_key key j \<longleftrightarrow> i = j"
  by (auto simp: chunk_key_def dest: toString_inj)

lemma chunk_key_neq_key: "chunk_key key i \<noteq> key"
  by (simp add: chunk_key_def)

lemma chunks_key_neq_key: "chunks_key key \<noteq> key"
  by (simp add: chunks_key_def)

lemma chunk_key_neq_chunks_key: "chunk_key key i \<noteq> chunks_key key"
proof -
  have "toString i \<noteq> ''s''"
    using toString_all_digits[of i] by (auto simp: is_digit_def)
  then show ?thesis by (simp add: chunk_key_def chunks_key_def)
qed

lemmas key_distinct = chunk_key_inj chunk_key_neq_key chunk_key_neq_key[symmetric]
  chunks_key_neq_key chunks_key_neq_key[symmetric]
  chunk_key_neq_chunks_key chunk_key_neq_chunks_key[symmetric]

subsection \<open>The loops over the chunks\<close>

lemma store_chunks_frame:
  "store_chunks quota key str c ls idx = (ls', e) \<Longrightarrow> \<forall>i\<in>set idx. k \<noteq> chunk_key key i \<Longrightarrow>
   ls' k = ls k"
proof (induction idx arbitrary: ls)
  case Nil then show ?case by simp
next
  case (Cons j idx)
  then show ?case
    by (auto simp: setItem_def split: sum.splits if_splits)
qed

lemma store_chunks_written:
  "store_chunks quota key str c ls idx = (ls', None) \<Longrightarrow> i \<in> set idx \<Longrightarrow>
   ls' (chunk_key key i) = Some (substring str (i * c) (i * c + c))"
proof (induction idx arbitrary: ls)
  case Nil then show ?case by simp
next
  case (Cons j idx)
  from Cons.prems(1) obtain ls1 where
    s1: "setItem quota ls (chunk_key key j) (substring str (j * c) (j * c + c)) = Inr ls1"
    and r: "store_chunks quota key str c ls1 idx = (ls', None)"
    by (auto split: sum.splits)
  show ?case
  proof (cases "i \<in> set idx")
    case True then show ?thesis using Cons.IH[OF r] by simp
  next
    case False
    with Cons.prems(2) have ij: "i = j" by simp
    have "ls' (chunk_key key i) = ls1 (chunk_key key i)"
      using False by (intro store_chunks_frame[OF r]) (auto simp: chunk_key_inj)
    moreover have "ls1 (chunk_key key j) = Some (substring str (j * c) (j * c + c))"
      using s1 by (auto simp: setItem_def split: if_splits)
    ultimately show ?thesis using ij by simp
  qed
qed

lemma cleanup_chunks_frame:
  "\<forall>i\<in>set idx. k \<noteq> chunk_key key i \<Longrightarrow> cleanup_chunks key ls idx k = ls k"
  by (induction idx arbitrary: ls) (auto simp: removeItem_def getItem_def)

lemma cleanup_chunks_removes:
  "distinct idx \<Longrightarrow> \<forall>j\<in>set (take p idx). truthy_string (ls (chunk_key key j)) \<Longrightarrow>
   i \<in> set (take p idx) \<Longrightarrow> cleanup_chunks key ls idx (chunk_key key i) = None"
proof (induction idx arbitrary: ls p)
  case Nil then show ?case by simp
next
  case (Cons a idx)
  from Cons.prems(3) obtain p' where p: "p = Suc p'" by (cases p) auto
  have ta: "truthy_string (ls (chunk_key key a))" using Cons.prems(2) p by simp
  let ?ls = "removeItem ls (chunk_key key a)"
  show ?case
  proof (cases "i = a")
    case True
    have "cleanup_chunks key ?ls idx (chunk_key key a) = ?ls (chunk_key key a)"
      using Cons.prems(1) by (intro cleanup_chunks_frame) (auto simp: chunk_key_inj)
    then show ?thesis using ta True by (simp add: getItem_def removeItem_def)
  next
    case False
    have "cleanup_chunks key ?ls idx (chunk_key key i) = None"
    proof (rule Cons.IH[where p = p'])
      show "distinct idx" using Cons.prems(1) by simp
      show "\<forall>j\<in>set (take p' idx). truthy_string (?ls (chunk_key key j))"
        using Cons.prems(1,2) p by (auto simp: removeItem_def chunk_key_inj dest: in_set_takeD)
      show "i \<in> set (take p' idx)" using Cons.prems(3) p False by simp
    qed
    then show ?thesis using ta by (simp add: getItem_def)
  qed
qed

lemma read_chunks_all:
  "\<forall>i\<in>set idx. truthy_string (ls (chunk_key key i)) \<Longrightarrow>
   read_chunks ls key n acc idx = Inr (acc @ concat (map (\<lambda>i. the (ls (chunk_key key i))) idx))"
  by (induction idx arbitrary: acc) (auto simp: getItem_def truthy_string_def split: option.splits)

lemma read_chunks_missing:
  "i \<in> set idx \<Longrightarrow> \<not> truthy_string (ls (chunk_key key i)) \<Longrightarrow>
   \<exists>j\<in>set idx. \<not> truthy_string (ls (chunk_key key j)) \<and>
      read_chunks ls key n acc idx = Inl (Error (''Missing chunk '' @ toString j @ '' of '' @ toString n))"
proof (induction idx arbitrary: acc)
  case Nil then show ?case by simp
next
  case (Cons a idx)
  show ?case
  proof (cases "truthy_string (ls (chunk_key key a))")
    case True
    with Cons.prems have "i \<in> set idx" by auto
    from Cons.IH[OF this Cons.prems(2)] True show ?thesis
      by (auto simp: getItem_def truthy_string_def split: option.splits)
  next
    case False
    then show ?thesis by (auto simp: getItem_def truthy_string_def split: option.splits)
  qed
qed

lemma concat_slices_take:
  "concat (map (\<lambda>i. take c (drop (i * c) s)) [0..<n]) = take (n * c) s"
proof (induction n)
  case 0 then show ?case by simp
next
  case (Suc n)
  have "take (n * c) s @ take c (drop (n * c) s) = take (n * c + c) s"
    by (simp add: take_add)
  then show ?case using Suc by (simp add: add.commute)
qed

lemma concat_slices:
  "length s \<le> n * c \<Longrightarrow> concat (map (\<lambda>i. take c (drop (i * c) s)) [0..<n]) = s"
  by (simp add: concat_slices_take)

subsection \<open>The two branches of a save\<close>

lemma save_direct_state:
  assumes ser: "serialize data = Inr s" and small: "length s < 2000000"
    and ok: "snd (saveToLocalStorage quota ls key data)"
  shows "fst (saveToLocalStorage quota ls key data) key = Some s"
    and "fst (saveToLocalStorage quota ls key data) (chunks_key key)
           = (if truthy_string (ls (chunks_key key)) then None else ls (chunks_key key))"
    and "k \<noteq> key \<Longrightarrow> k \<noteq> chunks_key key \<Longrightarrow> \<forall>i<20. k \<noteq> chunk_key key i \<Longrightarrow>
         fst (saveToLocalStorage quota ls key data) k = ls k"
proof -
  from ok ser small obtain ls1 where s1: "setItem quota ls key s = Inr ls1"
    by (auto simp: saveToLocalStorage_def split: sum.splits)
  then have ls1: "ls1 = ls(key \<mapsto> s)" by (auto simp: setItem_def split: if_splits)
  define ls2 where "ls2 = cleanup_chunks key ls1 [0..<20]"
  define ls3 where "ls3 = (if truthy_string (getItem ls2 (chunks_key key))
                             then removeItem ls2 (chunks_key key) else ls2)"
  have res: "fst (saveToLocalStorage quota ls key data) = ls3"
    using ser small s1 by (simp add: saveToLocalStorage_def Let_def ls2_def ls3_def)
  have "ls2 key = ls1 key"
    unfolding ls2_def by (intro cleanup_chunks_frame) (simp add: key_distinct)
  then show "fst (saveToLocalStorage quota ls key data) key = Some s"
    by (simp add: res ls3_def removeItem_def key_distinct ls1)
  have "ls2 (chunks_key key) = ls1 (chunks_key key)"
    unfolding ls2_def by (intro cleanup_chunks_frame) (simp add: key_distinct)
  then show "fst (saveToLocalStorage quota ls key data) (chunks_key key)
           = (if truthy_string (ls (chunks_key key)) then None else ls (chunks_key key))"
    by (simp add: res ls3_def removeItem_def getItem_def ls1 key_distinct)
  assume k: "k \<noteq> key" "k \<noteq> chunks_key key" "\<forall>i<20. k \<noteq> chunk_key key i"
  then have "ls2 k = ls1 k"
    unfolding ls2_def by (intro cleanup_chunks_frame) simp
  then show "fst (saveToLocalStorage quota ls key data) k = ls k"
    using k by (simp add: res ls3_def removeItem_def ls1)
qed

lemma save_chunked_state:
  assumes ser: "serialize data = Inr s" and big: "\<not> length s < 2000000"
    and ok: "snd (saveToLocalStorage quota ls key data)"
  shows "fst (saveToLocalStorage quota ls key data) key = Some (''__CHUNKED__'' @ toString (ceil_div (length s) 1000000))"
    and "fst (saveToLocalStorage quota ls key data) (chunks_key key) = Some (toString (ceil_div (length s) 1000000))"
    and "i < ceil_div (length s) 1000000 \<Longrightarrow> fst (saveToLocalStorage quota ls key data) (chunk_key key i)
           = Some (substring s (i * 1000000) (i * 1000000 + 1000000))"
    and "k \<noteq> key \<Longrightarrow> k \<noteq> chunks_key key \<Longrightarrow> \<forall>i<ceil_div (length s) 1000000. k \<noteq> chunk_key key i \<Longrightarrow>
         fst (saveToLocalStorage quota ls key data) k = ls k"
proof -
  let ?n = "ceil_div (length s) 1000000"
  from ok ser big obtain ls1 ls2 ls3 where
    s1: "setItem quota ls (chunks_key key) (toString ?n) = Inr ls1"
    and s2: "store_chunks quota key s 1000000 ls1 [0..<?n] = (ls2, None)"
    and s3: "setItem quota ls2 key (''__CHUNKED__'' @ toString ?n) = Inr ls3"
    by (auto simp: saveToLocalStorage_def Let_def ceil_div_def split: sum.splits prod.splits option.splits)
  have res: "fst (saveToLocalStorage quota ls key data) = ls3"
    using ser big s1 s2 s3 by (simp add: saveToLocalStorage_def Let_def ceil_div_def)
  have ls1: "ls1 = ls(chunks_key key \<mapsto> toString ?n)"
    using s1 by (auto simp: setItem_def split: if_splits)
  have ls3: "ls3 = ls2(key \<mapsto> ''__CHUNKED__'' @ toString ?n)"
    using s3 by (auto simp: setItem_def split: if_splits)
  show "fst (saveToLocalStorage quota ls key data) key = Some (''__CHUNKED__'' @ toString ?n)"
    by (simp add: res ls3)
  have "ls2 (chunks_key key) = ls1 (chunks_key key)"
    by (intro store_chunks_frame[OF s2]) (simp add: key_distinct)
  then show "fst (saveToLocalStorage quota ls key data) (chunks_key key) = Some (toString ?n)"
    by (simp add: res ls3 ls1 key_distinct)
  {
    assume "i < ?n"
    then have "ls2 (chunk_key key i) = Some (substring s (i * 1000000) (i * 1000000 + 1000000))"
      by (intro store_chunks_written[OF s2]) simp
    then show "fst (saveToLocalStorage quota ls key data) (chunk_key key i)
           = Some (substring s (i * 1000000) (i * 1000000 + 1000000))"
      by (simp add: res ls3 key_distinct)
  }
  assume k: "k \<noteq> key" "k \<noteq> chunks_key key" "\<forall>i<?n. k \<noteq> chunk_key key i"
  then have "ls2 k = ls1 k"
    by (intro store_chunks_frame[OF s2]) simp
  then show "fst (saveToLocalStorage quota ls key data) k = ls k"
    using k by (simp add: res ls3 ls1)
qed

lemma ceil_div_covers: "0 < c \<Longrightarrow> (n::nat) \<le> ceil_div n c * c"
proof -
  assume c: "0 < c"
  have "(n + c - 1) div c * c + (n + c - 1) mod c = n + c - 1" by simp
  moreover have "(n + c - 1) mod c < c" using c by simp
  ultimately show ?thesis unfolding ceil_div_def by linarith
qed

lemma chunk_count_covers: "length s \<le> ceil_div (length s) 1000000 * 1000000"
  by (rule ceil_div_covers) simp

lemma slice_nonempty: "i < ceil_div (length s) 1000000 \<Longrightarrow> substring s (i * 1000000) (i * 1000000 + 1000000) \<noteq> []"
  unfolding ceil_div_def substring_def by auto

lemma load_after_chunked_save:
  assumes ser: "serialize data = Inr s" and big: "\<not> length s < 2000000"
    and ok: "snd (saveToLocalStorage quota ls key data)"
  shows "read_chunks (fst (saveToLocalStorage quota ls key data)) key (ceil_div (length s) 1000000) []
           [0..<ceil_div (length s) 1000000] = Inr s"
    and "load_try (fst (saveToLocalStorage quota ls key data)) key d = JSON_parse s"
proof -
  let ?n = "ceil_div (length s) 1000000"
  let ?ls = "fst (saveToLocalStorage quota ls key data)"
  note st = save_chunked_state[OF ser big ok]
  have n: "0 < ?n" using big by (simp add: ceil_div_def)
  have tr: "\<forall>i\<in>set [0..<?n]. truthy_string (?ls (chunk_key key i))"
    using st(3) slice_nonempty by (simp add: truthy_string_def)
  have "concat (map (\<lambda>i. the (?ls (chunk_key key i))) [0..<?n])
        = concat (map (\<lambda>i. take 1000000 (drop (i * 1000000) s)) [0..<?n])"
    by (rule arg_cong[where f = concat], rule map_cong) (simp_all add: st(3) substring_def)
  also have "\<dots> = s" using chunk_count_covers[of s] by (rule concat_slices)
  finally show rd: "read_chunks ?ls key ?n [] [0..<?n] = Inr s"
    using read_chunks_all[OF tr, of ?n "[]"] by simp
  show "load_try ?ls key d = JSON_parse s"
    using n rd by (simp add: load_try_def getItem_def st(1,2) toString_nonempty parseInt_toString)
qed

subsection \<open>Parsing what stringify writes\<close>

lemma toString_Cons: "\<exists>c cs. toString n = c # cs \<and> is_digit c \<and> list_all is_digit cs"
  using toString_nonempty[of n] toString_all_digits[of n] by (cases "toString n") auto

lemma toString_leading: "0 < n \<Longrightarrow> hd (toString n) \<noteq> CHR ''0''"
proof (induction n rule: toString.induct)
  case (1 n)
  show ?case
  proof (cases "n < 10")
    case True
    with 1(2) show ?thesis
      by (subst toString.simps) (simp add: digit_char_def char_of_eq_iff take_bit_eq_mod)
  next
    case False
    then have "0 < n div 10" by simp
    with 1(1) False have "hd (toString (n div 10)) \<noteq> CHR ''0''" by simp
    then show ?thesis using False toString_nonempty[of "n div 10"]
      by (subst toString.simps) simp
  qed
qed

lemma toString_zero: "toString 0 = ''0''"
  by (subst toString.simps) (simp add: digit_char_def char_of_eq_iff take_bit_eq_mod)

lemma value_end_number:
  "value_end rest \<Longrightarrow> number_end rest \<and> (case rest of [] \<Rightarrow> True | c # _ \<Rightarrow> \<not> is_digit c)"
  by (auto simp: value_end_def number_end_def is_digit_def split: list.splits)

lemma takeWhile_digits:
  "list_all is_digit ds \<Longrightarrow> (case rest of [] \<Rightarrow> True | c # _ \<Rightarrow> \<not> is_digit c) \<Longrightarrow>
   takeWhile is_digit (ds @ rest) = ds \<and> dropWhile is_digit (ds @ rest) = rest"
  by (induction ds) (auto simp: list_all_iff split: list.splits)

lemma parse_natural_toString:
  assumes "value_end rest"
  shows "parse_natural (toString n @ rest) = Some (n, rest)"
proof (cases "n = 0")
  case True
  then show ?thesis using value_end_number[OF assms]
    by (simp add: toString_zero parse_natural_def)
next
  case False
  obtain c cs where s: "toString n = c # cs" and c: "is_digit c" and cs: "list_all is_digit cs"
    using toString_Cons[of n] by blast
  have c0: "c \<noteq> CHR ''0''" using toString_leading[of n] False s by simp
  have td: "takeWhile is_digit ((c # cs) @ rest) = c # cs \<and> dropWhile is_digit ((c # cs) @ rest) = rest"
    using c cs value_end_number[OF assms] by (intro takeWhile_digits) auto
  have v: "digits_value (c # cs) = n" using digits_value_toString[of n] s by simp
  show ?thesis unfolding s parse_natural_def using c0 c td v value_end_number[OF assms]
    by (simp del: takeWhile.simps dropWhile.simps takeWhile_append dropWhile_append)
qed

lemma parse_number_int_toString:
  assumes "value_end rest"
  shows "parse_number (int_toString i @ rest) = Some (i, rest)"
proof (cases "i < 0")
  case True
  then show ?thesis using parse_natural_toString[OF assms, of "nat (- i)"]
    by (simp add: int_toString_def parse_number_def)
next
  case False
  obtain c cs where s: "toString (nat i) = c # cs" and c: "is_digit c"
    using toString_Cons[of "nat i"] by blast
  have "c \<noteq> CHR ''-''" using c by (auto simp: is_digit_def)
  then show ?thesis using False parse_natural_toString[OF assms, of "nat i"] s
    by (simp add: int_toString_def parse_number_def)
qed

lemma hex_val_hex_digit: "d < 16 \<Longrightarrow> hex_val (hex_digit d) = Some d"
  by (auto simp: hex_val_def hex_digit_def Let_def)

lemma hex_val_zero: "hex_val (CHR ''0'') = Some 0"
  by (simp add: hex_val_def)

lemma parse_escape_char:
  assumes "parse_string_body t = Some (s, rest)"
  shows "parse_string_body (escape_char c @ t) = Some (c # s, rest)"
proof -
  have n: "of_char c div 16 < (16::nat)" "of_char c mod 16 < (16::nat)"
    using nat_of_char_less_256[of c] by (simp_all add: less_mult_imp_div_less)
  have bk: "char_of (of_char c div 16 * 16 + of_char c mod 16 :: nat) = c" by simp
  show ?thesis using assms
    by (simp add: escape_char_def unescape_def hex_val_hex_digit[OF n(1)] hex_val_hex_digit[OF n(2)]
        hex_val_zero bk)
qed

lemma parse_string_body_escaped:
  "parse_string_body (concat (map escape_char s) @ CHR 0x22 # rest) = Some (s, rest)"
  by (induction s) (simp_all add: parse_escape_char)

lemma value_start_props:
  "value_start c \<Longrightarrow> \<not> json_ws c \<and> c \<noteq> CHR '']'' \<and> c \<noteq> CHR ''}'' \<and> c \<noteq> CHR ''_''"
  by (auto simp: value_start_def json_ws_def is_digit_def)

lemma int_toString_start: "\<exists>c cs. int_toString i = c # cs \<and> (c = CHR ''-'' \<or> is_digit c)"
  using toString_Cons[of "nat i"] by (auto simp: int_toString_def)

lemma serialized_start:
  "SerializeJSONProperty v = Some s \<Longrightarrow> \<exists>c cs. s = c # cs \<and> value_start c"
proof (cases v)
  case (JNum i)
  assume "SerializeJSONProperty v = Some s"
  with JNum have "s = int_toString i" by simp
  then show ?thesis using int_toString_start[of i] by (auto simp: value_start_def)
qed (auto simp: value_start_def QuoteJSONString_def)

lemma skip_ws_start: "value_start c \<Longrightarrow> skip_ws (c # cs) = c # cs"
  by (simp add: skip_ws_def value_start_props)

lemma skip_ws_punct [simp]:
  "skip_ws (CHR '','' # r) = CHR '','' # r"
  "skip_ws (CHR '']'' # r) = CHR '']'' # r"
  "skip_ws (CHR ''}'' # r) = CHR ''}'' # r"
  "skip_ws (CHR '':'' # r) = CHR '':'' # r"
  by (simp_all add: skip_ws_def json_ws_def)

lemma pv_array_empty: "parse_value (Suc n) (CHR ''['' # CHR '']'' # rest) = Some (JArr [], rest)"
  by (simp add: skip_ws_start value_start_def)

lemma pv_object_empty: "parse_value (Suc n) (CHR ''{'' # CHR ''}'' # rest) = Some (JObj [], rest)"
  by (simp add: skip_ws_start value_start_def)

lemma pv_array:
  assumes "value_start c" "parse_elements n (c # cs) = Some (xs, rest)"
  shows "parse_value (Suc n) (CHR ''['' # c # cs) = Some (JArr xs, rest)"
  using assms value_start_props[OF assms(1)]
  by (simp add: skip_ws_start[of "CHR ''[''"] skip_ws_start[OF assms(1)] value_start_def[of "CHR ''[''"])

lemma pv_object:
  assumes "parse_members n (CHR 0x22 # cs) = Some (kvs, rest)"
  shows "parse_value (Suc n) (CHR ''{'' # CHR 0x22 # cs) = Some (JObj (object_of kvs), rest)"
  using assms
  by (simp add: skip_ws_start[of "CHR ''{''"] skip_ws_start[of "CHR 0x22"] value_start_def)

lemma pv_string:
  "parse_value (Suc n) (QuoteJSONString s @ rest) = Some (JStr s, rest)"
  by (simp add: QuoteJSONString_def skip_ws_start[of "CHR 0x22"] value_start_def
      parse_string_body_escaped)

lemma pv_literals:
  "parse_value (Suc n) (''null'' @ rest) = Some (JNull, rest)"
  "parse_value (Suc n) (''true'' @ rest) = Some (JBool True, rest)"
  "parse_value (Suc n) (''false'' @ rest) = Some (JBool False, rest)"
  by (simp_all add: skip_ws_start value_start_def)

lemma pv_number:
  assumes "value_end rest"
  shows "parse_value (Suc n) (int_toString i @ rest) = Some (JNum i, rest)"
proof -
  obtain c cs where s: "int_toString i = c # cs" and c: "c = CHR ''-'' \<or> is_digit c"
    using int_toString_start[of i] by blast
  have vs: "value_start c" using c by (auto simp: value_start_def)
  have ne: "c \<noteq> CHR ''['' \<and> c \<noteq> CHR ''{'' \<and> c \<noteq> CHR 0x22 \<and> c \<noteq> CHR ''t'' \<and> c \<noteq> CHR ''f'' \<and> c \<noteq> CHR ''n''"
    using c by (auto simp: is_digit_def)
  have pn: "parse_number (c # cs @ rest) = Some (i, rest)"
    using parse_number_int_toString[OF assms, of i] s by simp
  show ?thesis using ne pn by (auto simp add: s skip_ws_start[OF vs])
qed

lemma object_of_append:
  "distinct (map fst (acc @ kvs)) \<Longrightarrow>
   foldl (\<lambda>acc (k, v). AList.update k v acc) acc kvs = acc @ kvs"
proof (induction kvs arbitrary: acc)
  case Nil then show ?case by simp
next
  case (Cons kv kvs)
  obtain k v where kv: "kv = (k, v)" by (cases kv)
  have "k \<notin> fst ` set acc" using Cons.prems kv by auto
  then have u: "AList.update k v acc = acc @ [(k, v)]" by (rule update_fresh)
  have "distinct (map fst ((acc @ [(k, v)]) @ kvs))" using Cons.prems kv by simp
  from Cons.IH[OF this] show ?case by (simp add: kv u)
qed

lemma object_of_distinct: "distinct (map fst kvs) \<Longrightarrow> object_of kvs = kvs"
  using object_of_append[of "[]" kvs] by (simp add: object_of_def)

lemma pe_last:
  "parse_value n s = Some (v, CHR '']'' # rest) \<Longrightarrow> parse_elements (Suc n) s = Some ([v], rest)"
  by simp

lemma pe_more:
  "parse_value n s = Some (v, CHR '','' # later) \<Longrightarrow> parse_elements n later = Some (vs, rest) \<Longrightarrow>
   parse_elements (Suc n) s = Some (v # vs, rest)"
  by simp

lemma pm_last:
  "parse_value n s = Some (v, CHR ''}'' # rest) \<Longrightarrow>
   parse_members (Suc n) (QuoteJSONString k @ CHR '':'' # s) = Some ([(k, v)], rest)"
  by (simp add: QuoteJSONString_def skip_ws_start[of "CHR 0x22"] value_start_def
      parse_string_body_escaped)

lemma pm_more:
  "parse_value n s = Some (v, CHR '','' # later) \<Longrightarrow> parse_members n later = Some (kvs, rest) \<Longrightarrow>
   parse_members (Suc n) (QuoteJSONString k @ CHR '':'' # s) = Some ((k, v) # kvs, rest)"
  by (simp add: QuoteJSONString_def skip_ws_start[of "CHR 0x22"] value_start_def
      parse_string_body_escaped)

lemma join_Cons: "join (x # xs) = (if xs = [] then x else x @ CHR '','' # join xs)"
  by (cases xs) simp_all

lemma SerializeJSONArray_empty [simp]: "SerializeJSONArray xs = [] \<longleftrightarrow> xs = []"
  by (cases xs) simp_all

lemma value_end_punct [simp]:
  "value_end []" "value_end (CHR '','' # r)" "value_end (CHR '']'' # r)" "value_end (CHR ''}'' # r)"
  by (simp_all add: value_end_def)

lemma roundtrip_mutual:
  "json_plain v \<longrightarrow>
     (\<exists>s. SerializeJSONProperty v = Some s \<and>
          (\<forall>rest fuel. value_end rest \<longrightarrow> length s \<le> fuel \<longrightarrow>
             parse_value fuel (s @ rest) = Some (v, rest)))"
  "json_plain_elements xs \<longrightarrow> xs \<noteq> [] \<longrightarrow>
     (\<forall>rest fuel. length (join (SerializeJSONArray xs)) < fuel \<longrightarrow>
        parse_elements fuel (join (SerializeJSONArray xs) @ CHR '']'' # rest) = Some (xs, rest))
     \<and> (\<exists>c cs. join (SerializeJSONArray xs) = c # cs \<and> value_start c)"
  "json_plain_members kvs \<longrightarrow> kvs \<noteq> [] \<longrightarrow>
     (\<forall>rest fuel. length (join (SerializeJSONObject kvs)) < fuel \<longrightarrow>
        parse_members fuel (join (SerializeJSONObject kvs) @ CHR ''}'' # rest) = Some (kvs, rest))
     \<and> (\<exists>cs. join (SerializeJSONObject kvs) = CHR 0x22 # cs)
     \<and> SerializeJSONObject kvs \<noteq> []"
proof (induction v and xs and kvs
    rule: SerializeJSONProperty_SerializeJSONArray_SerializeJSONObject.induct)
  case 1
  show ?case by simp
next
  case 2
  show ?case
  proof (intro impI exI conjI allI)
    fix rest fuel assume "length ''null'' \<le> fuel"
    then obtain n where "fuel = Suc n" by (cases fuel) auto
    then show "parse_value fuel (''null'' @ rest) = Some (JNull, rest)"
      using pv_literals(1) by simp
  qed simp
next
  case (3 b)
  show ?case
  proof (intro impI exI conjI allI)
    fix rest fuel assume "length (if b then ''true'' else ''false'') \<le> fuel"
    then obtain n where "fuel = Suc n" by (cases fuel) (auto split: if_splits)
    then show "parse_value fuel ((if b then ''true'' else ''false'') @ rest) = Some (JBool b, rest)"
      using pv_literals(2,3) by (cases b) simp_all
  qed simp
next
  case (4 i)
  show ?case
  proof (intro impI exI conjI allI)
    fix rest fuel assume ve: "value_end rest" and "length (int_toString i) \<le> fuel"
    moreover have "int_toString i \<noteq> []" using int_toString_start[of i] by auto
    ultimately obtain n where "fuel = Suc n" by (cases fuel) auto
    then show "parse_value fuel (int_toString i @ rest) = Some (JNum i, rest)"
      using pv_number[OF ve] by simp
  qed simp
next
  case (5 s)
  show ?case
  proof (intro impI exI conjI allI)
    fix rest fuel assume "length (QuoteJSONString s) \<le> fuel"
    then obtain n where "fuel = Suc n" by (cases fuel) (auto simp: QuoteJSONString_def)
    then show "parse_value fuel (QuoteJSONString s @ rest) = Some (JStr s, rest)"
      using pv_string by simp
  qed simp
next
  case (6 isoString)
  show ?case by simp
next
  case (7 xs)
  show ?case
  proof (intro impI exI conjI allI)
    show "SerializeJSONProperty (JArr xs) = Some (CHR ''['' # join (SerializeJSONArray xs) @ '']'')"
      by simp
  next
    fix rest fuel
    assume pl: "json_plain (JArr xs)"
      and len: "length (CHR ''['' # join (SerializeJSONArray xs) @ '']'') \<le> fuel"
    then obtain n where f: "fuel = Suc n" by (cases fuel) auto
    show "parse_value fuel ((CHR ''['' # join (SerializeJSONArray xs) @ '']'') @ rest)
          = Some (JArr xs, rest)"
    proof (cases "xs = []")
      case True
      then show ?thesis using pv_array_empty by (simp add: f)
    next
      case False
      with 7 pl have
        pe: "\<And>rest fuel. length (join (SerializeJSONArray xs)) < fuel \<Longrightarrow>
               parse_elements fuel (join (SerializeJSONArray xs) @ CHR '']'' # rest) = Some (xs, rest)"
        and "\<exists>c cs. join (SerializeJSONArray xs) = c # cs \<and> value_start c"
        by simp_all
      then obtain c cs where st: "join (SerializeJSONArray xs) = c # cs" "value_start c"
        by blast
      have "parse_elements n (join (SerializeJSONArray xs) @ CHR '']'' # rest) = Some (xs, rest)"
        using len f by (intro pe) simp
      then have "parse_elements n (c # cs @ CHR '']'' # rest) = Some (xs, rest)"
        by (simp add: st(1))
      from pv_array[OF st(2) this] show ?thesis by (simp add: f st(1))
    qed
  qed
next
  case (8 kvs)
  show ?case
  proof (intro impI exI conjI allI)
    show "SerializeJSONProperty (JObj kvs) = Some (CHR ''{'' # join (SerializeJSONObject kvs) @ ''}'')"
      by simp
  next
    fix rest fuel
    assume pl: "json_plain (JObj kvs)"
      and len: "length (CHR ''{'' # join (SerializeJSONObject kvs) @ ''}'') \<le> fuel"
    then obtain n where f: "fuel = Suc n" by (cases fuel) auto
    show "parse_value fuel ((CHR ''{'' # join (SerializeJSONObject kvs) @ ''}'') @ rest)
          = Some (JObj kvs, rest)"
    proof (cases "kvs = []")
      case True
      then show ?thesis using pv_object_empty by (simp add: f)
    next
      case False
      with 8 pl have
        pm: "\<And>rest fuel. length (join (SerializeJSONObject kvs)) < fuel \<Longrightarrow>
               parse_members fuel (join (SerializeJSONObject kvs) @ CHR ''}'' # rest) = Some (kvs, rest)"
        and "\<exists>cs. join (SerializeJSONObject kvs) = CHR 0x22 # cs"
        by simp_all
      then obtain cs where st: "join (SerializeJSONObject kvs) = CHR 0x22 # cs"
        by blast
      have "parse_members n (join (SerializeJSONObject kvs) @ CHR ''}'' # rest) = Some (kvs, rest)"
        using len f by (intro pm) simp
      then have "parse_members n (CHR 0x22 # cs @ CHR ''}'' # rest) = Some (kvs, rest)"
        by (simp add: st)
      from pv_object[OF this] show ?thesis using pl by (simp add: f st object_of_distinct)
    qed
  qed
next
  case 9
  show ?case by simp
next
  case (10 x xs)
  show ?case
  proof (intro impI)
    assume pl: "json_plain_elements (x # xs)"
    with 10(1) have "\<exists>s. SerializeJSONProperty x = Some s \<and>
          (\<forall>rest fuel. value_end rest \<longrightarrow> length s \<le> fuel \<longrightarrow>
             parse_value fuel (s @ rest) = Some (x, rest))"
      by simp
    then obtain sx where sx: "SerializeJSONProperty x = Some sx"
      and px: "\<And>rest fuel. value_end rest \<Longrightarrow> length sx \<le> fuel \<Longrightarrow>
                 parse_value fuel (sx @ rest) = Some (x, rest)"
      by blast
    obtain c cs where c: "sx = c # cs" "value_start c" using serialized_start[OF sx] by blast
    show "(\<forall>rest fuel. length (join (SerializeJSONArray (x # xs))) < fuel \<longrightarrow>
             parse_elements fuel (join (SerializeJSONArray (x # xs)) @ CHR '']'' # rest)
             = Some (x # xs, rest))
          \<and> (\<exists>c cs. join (SerializeJSONArray (x # xs)) = c # cs \<and> value_start c)"
    proof (cases "xs = []")
      case True
      have "parse_elements fuel (sx @ CHR '']'' # rest) = Some ([x], rest)"
        if "length sx < fuel" for rest fuel
      proof -
        from that obtain n where f: "fuel = Suc n" by (cases fuel) auto
        have "parse_value n (sx @ CHR '']'' # rest) = Some (x, CHR '']'' # rest)"
          using that f by (intro px) simp_all
        from pe_last[OF this] show ?thesis by (simp add: f)
      qed
      then show ?thesis using True sx c by simp
    next
      case False
      with 10(2) pl have
        pe: "\<And>rest fuel. length (join (SerializeJSONArray xs)) < fuel \<Longrightarrow>
               parse_elements fuel (join (SerializeJSONArray xs) @ CHR '']'' # rest) = Some (xs, rest)"
        by auto
      let ?j = "join (SerializeJSONArray xs)"
      have "parse_elements fuel ((sx @ CHR '','' # ?j) @ CHR '']'' # rest) = Some (x # xs, rest)"
        if "length (sx @ CHR '','' # ?j) < fuel" for rest fuel
      proof -
        from that obtain n where f: "fuel = Suc n" by (cases fuel) auto
        have a: "parse_value n (sx @ CHR '','' # ?j @ CHR '']'' # rest)
                 = Some (x, CHR '','' # ?j @ CHR '']'' # rest)"
          using that f by (intro px) simp_all
        have b: "parse_elements n (?j @ CHR '']'' # rest) = Some (xs, rest)"
          using that f by (intro pe) simp
        from pe_more[OF a b] show ?thesis by (simp add: f)
      qed
      then show ?thesis using False sx c by (simp add: join_Cons)
    qed
  qed
next
  case 11
  show ?case by simp
next
  case (12 k v kvs)
  show ?case
  proof (intro impI)
    assume pl: "json_plain_members ((k, v) # kvs)"
    with 12(1) have "\<exists>s. SerializeJSONProperty v = Some s \<and>
          (\<forall>rest fuel. value_end rest \<longrightarrow> length s \<le> fuel \<longrightarrow>
             parse_value fuel (s @ rest) = Some (v, rest))"
      by simp
    then obtain sv where sv: "SerializeJSONProperty v = Some sv"
      and pv: "\<And>rest fuel. value_end rest \<Longrightarrow> length sv \<le> fuel \<Longrightarrow>
                 parse_value fuel (sv @ rest) = Some (v, rest)"
      by blast
    let ?m = "QuoteJSONString k @ CHR '':'' # sv"
    have so: "SerializeJSONObject ((k, v) # kvs) = ?m # SerializeJSONObject kvs"
      using sv by simp
    have mq: "\<exists>cs. ?m = CHR 0x22 # cs" by (simp add: QuoteJSONString_def)
    show "(\<forall>rest fuel. length (join (SerializeJSONObject ((k, v) # kvs))) < fuel \<longrightarrow>
             parse_members fuel (join (SerializeJSONObject ((k, v) # kvs)) @ CHR ''}'' # rest)
             = Some ((k, v) # kvs, rest))
          \<and> (\<exists>cs. join (SerializeJSONObject ((k, v) # kvs)) = CHR 0x22 # cs)
          \<and> SerializeJSONObject ((k, v) # kvs) \<noteq> []"
    proof (cases "kvs = []")
      case True
      have "parse_members fuel (?m @ CHR ''}'' # rest) = Some ([(k, v)], rest)"
        if "length ?m < fuel" for rest fuel
      proof -
        from that obtain n where f: "fuel = Suc n" by (cases fuel) auto
        have "parse_value n (sv @ CHR ''}'' # rest) = Some (v, CHR ''}'' # rest)"
          using that f by (intro pv) simp_all
        from pm_last[OF this, of k] show ?thesis by (simp add: f)
      qed
      then show ?thesis using True so mq by simp
    next
      case False
      with 12(3)[OF sv] pl have
        pm: "\<And>rest fuel. length (join (SerializeJSONObject kvs)) < fuel \<Longrightarrow>
               parse_members fuel (join (SerializeJSONObject kvs) @ CHR ''}'' # rest) = Some (kvs, rest)"
        and ne: "SerializeJSONObject kvs \<noteq> []"
        by auto
      let ?j = "join (SerializeJSONObject kvs)"
      have "parse_members fuel ((?m @ CHR '','' # ?j) @ CHR ''}'' # rest) = Some ((k, v) # kvs, rest)"
        if "length (?m @ CHR '','' # ?j) < fuel" for rest fuel
      proof -
        from that obtain n where f: "fuel = Suc n" by (cases fuel) auto
        have a: "parse_value n (sv @ CHR '','' # ?j @ CHR ''}'' # rest)
                 = Some (v, CHR '','' # ?j @ CHR ''}'' # rest)"
          using that f by (intro pv) simp_all
        have b: "parse_members n (?j @ CHR ''}'' # rest) = Some (kvs, rest)"
          using that f by (intro pm) simp
        from pm_more[OF a b, of k] show ?thesis by (simp add: f)
      qed
      moreover have "\<exists>cs. ?m @ CHR '','' # ?j = CHR 0x22 # cs"
        by (simp add: QuoteJSONString_def)
      ultimately show ?thesis unfolding so using ne by (simp add: join_Cons)
    qed
  qed
qed

lemma JSON_roundtrip:
  assumes "json_plain v"
  shows "\<exists>s. JSON_stringify v = Some s \<and> JSON_parse s = Inr v"
proof -
  from roundtrip_mutual(1)[of v] assms obtain s where
    s: "SerializeJSONProperty v = Some s"
    and p: "\<And>rest fuel. value_end rest \<Longrightarrow> length s \<le> fuel \<Longrightarrow> parse_value fuel (s @ rest) = Some (v, rest)"
    by blast
  have "parse_value (Suc (length s)) (s @ []) = Some (v, [])" by (rule p) simp_all
  then show ?thesis using s by (simp add: JSON_stringify_def JSON_parse_def skip_ws_def)
qed

lemma serialize_plain:
  assumes "json_plain v" "JSON_stringify v = Some s"
  shows "serialize v = Inr s" "JSON_parse s = Inr v"
  using JSON_roundtrip[OF assms(1)] assms(2) by (auto simp: serialize_def)

lemma json_plain_members_iff: "json_plain_members kvs \<longleftrightarrow> (\<forall>(k, v)\<in>set kvs. json_plain v)"
  by (induction kvs) auto

lemma plain_update:
  "json_plain v \<Longrightarrow> json_plain_members al \<Longrightarrow> json_plain_members (AList.update k v al)"
  using set_update_subset[of k v al] by (auto simp: json_plain_members_iff)

lemma object_of_plain_aux:
  "distinct (map fst acc) \<Longrightarrow> json_plain_members acc \<Longrightarrow> json_plain_members kvs \<Longrightarrow>
   distinct (map fst (foldl (\<lambda>acc (k, v). AList.update k v acc) acc kvs))
   \<and> json_plain_members (foldl (\<lambda>acc (k, v). AList.update k v acc) acc kvs)"
proof (induction kvs arbitrary: acc)
  case Nil then show ?case by simp
next
  case (Cons kv kvs)
  obtain k v where kv: "kv = (k, v)" by (cases kv)
  have "distinct (map fst (AList.update k v acc))" using Cons.prems(1) by (rule AList.distinct_update)
  moreover have "json_plain_members (AList.update k v acc)"
    using Cons.prems(2,3) kv by (intro plain_update) simp_all
  moreover have "json_plain_members kvs" using Cons.prems(3) kv by simp
  ultimately show ?case using Cons.IH[of "AList.update k v acc"] by (simp add: kv)
qed

lemma object_of_plain:
  assumes "json_plain_members kvs"
  shows "distinct (map fst (object_of kvs))" "json_plain_members (object_of kvs)"
  using object_of_plain_aux[of "[]" kvs] assms by (simp_all add: object_of_def)

lemma parse_plain:
  "parse_value n s = Some (v, r) \<Longrightarrow> json_plain v"
  "parse_elements n s = Some (vs, r) \<Longrightarrow> json_plain_elements vs"
  "parse_members n s = Some (kvs, r) \<Longrightarrow> json_plain_members kvs"
proof (induction n s and n s and n s arbitrary: v r and vs r and kvs r
    rule: parse_value_parse_elements_parse_members.induct)
  case (1 s)
  then show ?case by simp
next
  case (2 n s)
  from "2.prems" show ?case
    by (auto split: list.splits if_splits option.splits
        intro!: object_of_plain intro: "2.IH"(1) "2.IH"(2))
next
  case (3 s)
  then show ?case by simp
next
  case (4 n s)
  from "4.prems" obtain x rx where px: "parse_value n s = Some (x, rx)"
    by (auto split: option.splits)
  have x: "json_plain x" using "4.IH"(1)[OF px] .
  from "4.prems" px obtain c cs where sk: "skip_ws rx = c # cs"
    by (auto split: list.splits)
  show ?case
  proof (cases "c = CHR '',''")
    case True
    with "4.prems" px sk obtain xs where pe: "parse_elements n cs = Some (xs, r)" and vs: "vs = x # xs"
      by (auto split: option.splits)
    have "json_plain_elements xs" using "4.IH"(2)[OF px refl sk True pe] .
    then show ?thesis using x vs by simp
  next
    case False
    with "4.prems" px sk have "vs = [x]" by (auto split: if_splits)
    then show ?thesis using x by simp
  qed
next
  case (5 s)
  then show ?case by simp
next
  case (6 n s)
  from "6.prems" obtain q s1 where a: "skip_ws s = q # s1" and q: "q = CHR 0x22"
    by (auto split: list.splits if_splits)
  from "6.prems" a q obtain k s2 where b: "parse_string_body s1 = Some (k, s2)"
    by (auto split: option.splits)
  from "6.prems" a q b obtain colon s3 where c: "skip_ws s2 = colon # s3" and co: "colon = CHR '':''"
    by (auto split: list.splits if_splits)
  from "6.prems" a q b c co obtain x rx where d: "parse_value n s3 = Some (x, rx)"
    by (auto split: option.splits)
  have x: "json_plain x" using "6.IH"(1)[OF a q b refl c co d] .
  from "6.prems" a q b c co d obtain e es where sk: "skip_ws rx = e # es"
    by (auto split: list.splits)
  show ?case
  proof (cases "e = CHR '',''")
    case True
    with "6.prems" a q b c co d sk obtain xs where
      pm: "parse_members n es = Some (xs, r)" and kvs: "kvs = (k, x) # xs"
      by (auto split: option.splits)
    have "json_plain_members xs" using "6.IH"(2)[OF a q b refl c co d refl sk True pm] .
    then show ?thesis using x kvs by simp
  next
    case False
    with "6.prems" a q b c co d sk have "kvs = [(k, x)]" by (auto split: if_splits)
    then show ?thesis using x by simp
  qed
qed

lemma serialize_image:
  assumes "serialize data = Inr s"
  shows "\<exists>v. json_plain v \<and> JSON_stringify v = Some s \<and> JSON_parse s = Inr v"
proof -
  from assms obtain s0 v where p0: "JSON_parse s0 = Inr v" and sv: "JSON_stringify v = Some s"
    by (auto simp: serialize_def split: sum.splits option.splits)
  from p0 obtain r where "parse_value (Suc (length s0)) s0 = Some (v, r)"
    by (auto simp: JSON_parse_def split: option.splits if_splits)
  then have pl: "json_plain v" by (rule parse_plain(1))
  from serialize_plain(2)[OF pl sv] pl sv show ?thesis by blast
qed

lemma serialize_is_stringify:
  "serialize data = Inr s \<Longrightarrow> \<exists>v. JSON_stringify v = Some s"
  by (auto simp: serialize_def split: sum.splits option.splits)

lemma serialized_not_sentinel:
  assumes "serialize data = Inr s"
  shows "\<not> prefix ''__CHUNKED__'' s"
proof -
  from serialize_is_stringify[OF assms] obtain v where "SerializeJSONProperty v = Some s"
    by (auto simp: JSON_stringify_def)
  from serialized_start[OF this] obtain c cs where "s = c # cs" "value_start c" by blast
  then show ?thesis using value_start_props[of c] by auto
qed

lemma store_chunks_unlimited:
  "\<forall>ls k v. quota ls k v \<Longrightarrow> snd (store_chunks quota key str c ls idx) = None"
  by (induction idx arbitrary: ls) (auto simp: setItem_def)

lemma save_succeeds:
  assumes "\<forall>ls k v. quota ls k v" "serialize data = Inr s"
  shows "snd (saveToLocalStorage quota ls key data)"
proof -
  have sc: "\<And>ls idx x e. store_chunks quota key s 1000000 ls idx \<noteq> (x, Some e)"
    using store_chunks_unlimited[OF assms(1), of key s 1000000] by (metis option.distinct(1) snd_conv)
  show ?thesis using assms sc
    by (auto simp: saveToLocalStorage_def setItem_def Let_def split: prod.splits option.splits)
qed

lemma save_direct_removes:
  assumes ser: "serialize data = Inr s" and small: "length s < 2000000"
    and ok: "snd (saveToLocalStorage quota ls key data)"
    and present: "\<forall>j<n. truthy_string (ls (chunk_key key j))" and n: "n \<le> 20" and i: "i < n"
  shows "fst (saveToLocalStorage quota ls key data) (chunk_key key i) = None"
proof -
  from ok ser small obtain ls1 where s1: "setItem quota ls key s = Inr ls1"
    by (auto simp: saveToLocalStorage_def split: sum.splits)
  then have ls1: "ls1 = ls(key \<mapsto> s)" by (auto simp: setItem_def split: if_splits)
  define ls2 where "ls2 = cleanup_chunks key ls1 [0..<20]"
  define ls3 where "ls3 = (if truthy_string (getItem ls2 (chunks_key key))
                             then removeItem ls2 (chunks_key key) else ls2)"
  have res: "fst (saveToLocalStorage quota ls key data) = ls3"
    using ser small s1 by (simp add: saveToLocalStorage_def Let_def ls2_def ls3_def)
  have tk: "take n [0..<20] = [0..<n]" using n by (simp add: take_upt)
  have "ls2 (chunk_key key i) = None"
    unfolding ls2_def
    by (rule cleanup_chunks_removes[where p = n]) (use present i in \<open>simp_all add: tk ls1 key_distinct\<close>)
  then show ?thesis by (simp add: res ls3_def removeItem_def)
qed

lemma parseInt_empty: "parseInt [] = None"
  by (simp add: parseInt_def)

subsection \<open>Facts about the sample payloads\<close>

lemma concat_replicate_single: "concat (replicate n [x]) = replicate n x"
  by (induction n) simp_all

lemma escape_letters: "concat (map escape_char (replicate n (CHR ''a''))) = replicate n (CHR ''a'')"
proof -
  have e: "escape_char (CHR ''a'') = [CHR ''a'']" by (simp add: escape_char_def)
  show ?thesis by (simp only: map_replicate e concat_replicate_single)
qed

lemma quote_letters:
  "QuoteJSONString (replicate n (CHR ''a'')) = CHR 0x22 # replicate n (CHR ''a'') @ [CHR 0x22]"
  by (simp add: QuoteJSONString_def escape_letters del: map_replicate)

lemma stringify_letters:
  "JSON_stringify (letters n) = Some (CHR 0x22 # replicate n (CHR ''a'') @ [CHR 0x22])"
  by (simp add: JSON_stringify_def letters_def quote_letters)

lemma serialize_letters:
  "serialize (letters n) = Inr (CHR 0x22 # replicate n (CHR ''a'') @ [CHR 0x22])"
  by (rule serialize_plain(1)[OF _ stringify_letters]) (simp add: letters_def)

lemma quote_iso: "length (QuoteJSONString isoEpoch) = 26"
  by (simp add: QuoteJSONString_def isoEpoch_def escape_char_def)

lemma stringify_dated:
  "JSON_stringify datedPayload = JSON_stringify loadedPayload"
  by (simp add: JSON_stringify_def datedPayload_def loadedPayload_def letters_def)

lemma plain_loaded: "json_plain loadedPayload"
  by (simp add: loadedPayload_def letters_def)

lemma stringify_loaded: "JSON_stringify loadedPayload = Some datedText"
  by (simp add: JSON_stringify_def loadedPayload_def letters_def datedText_def)

lemma length_datedText: "length datedText = 500"
  by (simp add: datedText_def quote_letters quote_iso)

lemma unlimited_all: "\<forall>ls k v. unlimited ls k v"
  by (simp add: unlimited_def)

subsection \<open>Claims about the persistence\<close>

text \<open>
  C6 (as amended). For a payload whose serialized form is 500 characters long, a save
  that reports success followed by a load under the same key returns the plain JSON
  value that has the same serialization as the payload; when the payload is plain
  JSON data itself, that value is the payload.
\<close>

theorem save_load_json_image:
  assumes "serialize payload = Inr s" and "length s = 500"
    and "snd (saveToLocalStorage quota ls key payload)"
  shows "(\<exists>v. json_plain v \<and> JSON_stringify v = Some s
              \<and> loadFromLocalStorage (fst (saveToLocalStorage quota ls key payload)) key d = v)
         \<and> (json_plain payload \<longrightarrow>
              loadFromLocalStorage (fst (saveToLocalStorage quota ls key payload)) key d = payload)"
proof -
  have small: "length s < 2000000" using assms(2) by simp
  have "fst (saveToLocalStorage quota ls key payload) key = Some s"
    by (rule save_direct_state(1)[OF assms(1) small assms(3)])
  then have l: "load_try (fst (saveToLocalStorage quota ls key payload)) key d = JSON_parse s"
    using serialized_not_sentinel[OF assms(1)] by (simp add: load_try_def getItem_def)
  from serialize_image[OF assms(1)] obtain v where
    v: "json_plain v" "JSON_stringify v = Some s" "JSON_parse s = Inr v" by blast
  have lv: "loadFromLocalStorage (fst (saveToLocalStorage quota ls key payload)) key d = v"
    using l v(3) by (simp add: loadFromLocalStorage_def)
  have "v = payload" if pl: "json_plain payload"
  proof -
    from JSON_roundtrip[OF pl] obtain s' where
      s': "JSON_stringify payload = Some s'" "JSON_parse s' = Inr payload" by blast
    from serialize_plain(1)[OF pl s'(1)] assms(1) have "s' = s" by simp
    with s'(2) v(3) show ?thesis by simp
  qed
  then show ?thesis using v lv by blast
qed

theorem save_load_json_image_witness:
  "serialize loadedPayload = Inr datedText
   \<and> length datedText = 500
   \<and> snd (saveToLocalStorage unlimited Map.empty ''k'' loadedPayload)
   \<and> json_plain loadedPayload
   \<and> loadFromLocalStorage (fst (saveToLocalStorage unlimited Map.empty ''k'' loadedPayload)) ''k'' JNull
       = loadedPayload"
proof -
  have ser: "serialize loadedPayload = Inr datedText"
    by (rule serialize_plain(1)[OF plain_loaded stringify_loaded])
  have ok: "snd (saveToLocalStorage unlimited Map.empty ''k'' loadedPayload)"
    by (rule save_succeeds[OF unlimited_all ser])
  from save_load_json_image[OF ser length_datedText ok, of JNull] plain_loaded ser length_datedText ok
  show ?thesis by simp
qed

text \<open>
  C6 as stated fails: a payload with a \<open>Date\<close> in it serializes to 500 characters,
  is saved, and is loaded back with the ISO string in the place of the date.
\<close>

theorem save_load_date_counterexample:
  "serialize datedPayload = Inr datedText
   \<and> length datedText = 500
   \<and> snd (saveToLocalStorage unlimited Map.empty ''k'' datedPayload)
   \<and> loadFromLocalStorage (fst (saveToLocalStorage unlimited Map.empty ''k'' datedPayload)) ''k'' JNull
       = JArr [JStr isoEpoch, letters 469]
   \<and> loadFromLocalStorage (fst (saveToLocalStorage unlimited Map.empty ''k'' datedPayload)) ''k'' JNull
       \<noteq> datedPayload"
proof -
  note s = stringify_loaded length_datedText
  note sp = serialize_plain[OF plain_loaded s(1)]
  have ser: "serialize datedPayload = Inr datedText"
    using sp s(1) stringify_dated by (simp add: serialize_def)
  have ok: "snd (saveToLocalStorage unlimited Map.empty ''k'' datedPayload)"
    by (rule save_succeeds[OF unlimited_all ser])
  have small: "length datedText < 2000000" using s(2) by simp
  have "fst (saveToLocalStorage unlimited Map.empty ''k'' datedPayload) ''k'' = Some datedText"
    by (rule save_direct_state(1)[OF ser small ok])
  then have "loadFromLocalStorage (fst (saveToLocalStorage unlimited Map.empty ''k'' datedPayload)) ''k'' JNull
       = loadedPayload"
    using serialized_not_sentinel[OF ser] sp(2)
    by (simp add: loadFromLocalStorage_def load_try_def getItem_def)
  then show ?thesis using ser s(2) ok
    by (simp add: loadedPayload_def datedPayload_def)
qed

lemma ceil_div_3500000: "ceil_div 3500000 1000000 = 4"
  by (simp add: ceil_div_def)

lemma toString_digit: "n < 10 \<Longrightarrow> toString n = [digit_char n]"
  by (subst toString.simps) simp

lemma toString_4: "toString 4 = ''4''"
  by (simp add: toString_digit digit_char_def char_of_eq_iff take_bit_eq_mod)

text \<open>
  C7. A save that reports success of a payload whose serialized form is 3,500,000
  characters long writes the chunks 0 to 3 (the first three of 1,000,000 characters,
  the last of 500,000), the chunk count \<open>4\<close> under \<open>key_chunks\<close> and the sentinel
  \<open>__CHUNKED__4\<close> under the key, and changes no other entry; a load then reads the
  four chunks in index order, their concatenation is the serialized string, and
  the load returns the value that string is the serialization of.
\<close>

theorem save_chunked_3500000:
  assumes "serialize payload = Inr s" and "length s = 3500000"
    and "snd (saveToLocalStorage quota ls key payload)"
  shows "let ls' = fst (saveToLocalStorage quota ls key payload) in
           ls' (chunk_key key 0) = Some (take 1000000 s)
         \<and> ls' (chunk_key key 1) = Some (take 1000000 (drop 1000000 s))
         \<and> ls' (chunk_key key 2) = Some (take 1000000 (drop 2000000 s))
         \<and> ls' (chunk_key key 3) = Some (drop 3000000 s)
         \<and> length (take 1000000 s) = 1000000
         \<and> length (take 1000000 (drop 1000000 s)) = 1000000
         \<and> length (take 1000000 (drop 2000000 s)) = 1000000
         \<and> length (drop 3000000 s) = 500000
         \<and> ls' (chunks_key key) = Some ''4''
         \<and> ls' key = Some ''__CHUNKED__4''
         \<and> (\<forall>k. k \<noteq> key \<and> k \<noteq> chunks_key key \<and> (\<forall>i<4. k \<noteq> chunk_key key i) \<longrightarrow> ls' k = ls k)
         \<and> read_chunks ls' key 4 [] [0..<4] = Inr s
         \<and> take 1000000 s @ take 1000000 (drop 1000000 s) @ take 1000000 (drop 2000000 s)
             @ drop 3000000 s = s
         \<and> load_try ls' key d = JSON_parse s
         \<and> (\<exists>v. JSON_stringify v = Some s \<and> loadFromLocalStorage ls' key d = v)"
proof -
  have big: "\<not> length s < 2000000" using assms(2) by simp
  have n: "ceil_div (length s) 1000000 = 4" using assms(2) by (simp add: ceil_div_3500000)
  note st = save_chunked_state[OF assms(1) big assms(3), unfolded n toString_4]
  note ld = load_after_chunked_save[OF assms(1) big assms(3), unfolded n]
  have c0: "fst (saveToLocalStorage quota ls key payload) (chunk_key key 0) = Some (take 1000000 s)"
    using st(3)[of 0] by (simp add: substring_def)
  have c1: "fst (saveToLocalStorage quota ls key payload) (chunk_key key 1)
              = Some (take 1000000 (drop 1000000 s))"
    using st(3)[of 1] by (simp add: substring_def)
  have c2: "fst (saveToLocalStorage quota ls key payload) (chunk_key key 2)
              = Some (take 1000000 (drop 2000000 s))"
    using st(3)[of 2] by (simp add: substring_def)
  have c3: "fst (saveToLocalStorage quota ls key payload) (chunk_key key 3) = Some (drop 3000000 s)"
    using st(3)[of 3] assms(2) by (simp add: substring_def)
  have fr: "\<forall>k. k \<noteq> key \<and> k \<noteq> chunks_key key \<and> (\<forall>i<4. k \<noteq> chunk_key key i) \<longrightarrow>
              fst (saveToLocalStorage quota ls key payload) k = ls k"
    using st(4) by blast
  have cat: "take 1000000 s @ take 1000000 (drop 1000000 s) @ take 1000000 (drop 2000000 s)
               @ drop 3000000 s = s"
  proof -
    have "take 1000000 (drop 2000000 s) @ drop 3000000 s = drop 2000000 s"
      using append_take_drop_id[of 1000000 "drop 2000000 s"] by simp
    moreover have "take 1000000 (drop 1000000 s) @ drop 2000000 s = drop 1000000 s"
      using append_take_drop_id[of 1000000 "drop 1000000 s"] by simp
    ultimately show ?thesis by simp
  qed
  from serialize_image[OF assms(1)] obtain v where
    v: "JSON_stringify v = Some s" "JSON_parse s = Inr v" by blast
  have lv: "\<exists>v. JSON_stringify v = Some s
              \<and> loadFromLocalStorage (fst (saveToLocalStorage quota ls key payload)) key d = v"
    using v ld(2)[of d] by (auto simp: loadFromLocalStorage_def)
  show ?thesis unfolding Let_def
    using c0 c1 c2 c3 assms(2) st(1,2) fr ld cat lv by simp
qed

theorem save_chunked_3500000_witness:
  "serialize (letters 3499998) = Inr (CHR 0x22 # replicate 3499998 (CHR ''a'') @ [CHR 0x22])
   \<and> length (CHR 0x22 # replicate 3499998 (CHR ''a'') @ [CHR 0x22]) = 3500000
   \<and> snd (saveToLocalStorage unlimited Map.empty ''k'' (letters 3499998))
   \<and> fst (saveToLocalStorage unlimited Map.empty ''k'' (letters 3499998)) ''k'' = Some ''__CHUNKED__4''
   \<and> fst (saveToLocalStorage unlimited Map.empty ''k'' (letters 3499998)) (chunks_key ''k'') = Some ''4''
   \<and> loadFromLocalStorage (fst (saveToLocalStorage unlimited Map.empty ''k'' (letters 3499998))) ''k'' JNull
       = letters 3499998"
proof -
  have a: "serialize (letters 3499998) = Inr (CHR 0x22 # replicate 3499998 (CHR ''a'') @ [CHR 0x22])"
    by (rule serialize_letters)
  have b: "length (CHR 0x22 # replicate 3499998 (CHR ''a'') @ [CHR 0x22]) = 3500000" by simp
  have c: "snd (saveToLocalStorage unlimited Map.empty ''k'' (letters 3499998))"
    by (rule save_succeeds[OF unlimited_all a])
  have p: "JSON_parse (CHR 0x22 # replicate 3499998 (CHR ''a'') @ [CHR 0x22]) = Inr (letters 3499998)"
    by (rule serialize_plain(2)[OF _ stringify_letters]) (simp add: letters_def)
  from save_chunked_3500000[OF a b c, of JNull] have
    "fst (saveToLocalStorage unlimited Map.empty ''k'' (letters 3499998)) ''k'' = Some ''__CHUNKED__4''"
    "fst (saveToLocalStorage unlimited Map.empty ''k'' (letters 3499998)) (chunks_key ''k'') = Some ''4''"
    "load_try (fst (saveToLocalStorage unlimited Map.empty ''k'' (letters 3499998))) ''k'' JNull
       = JSON_parse (CHR 0x22 # replicate 3499998 (CHR ''a'') @ [CHR 0x22])"
    unfolding Let_def by blast+
  then show ?thesis using a b c p by (simp add: loadFromLocalStorage_def)
qed

lemma toString_two_digits: "10 \<le> n \<Longrightarrow> n < 100 \<Longrightarrow> toString n = [digit_char (n div 10), digit_char (n mod 10)]"
  by (subst toString.simps) (simp add: toString_digit)

lemma toString_21: "toString 21 = ''21''"
  by (simp add: toString_two_digits digit_char_def char_of_eq_iff take_bit_eq_mod)

lemma serialize_null: "serialize JNull = Inr ''null''"
  by (rule serialize_plain(1)) (simp_all add: JSON_stringify_def)

text \<open>
  C8 (the code at the failing input). A save of 21 chunks under \<open>k\<close> followed by a
  small save under \<open>k\<close>: the small save removes the chunk count and the chunks 0
  to 19, and chunk 20 is still in the storage.
\<close>

theorem direct_save_leaves_chunk_20:
  "snd (saveToLocalStorage unlimited Map.empty ''k'' (letters 20999998))
   \<and> afterLargeSave ''k'' = Some ''__CHUNKED__21''
   \<and> afterLargeSave (chunks_key ''k'') = Some ''21''
   \<and> afterLargeSave (chunk_key ''k'' 20) = Some (replicate 999999 (CHR ''a'') @ [CHR 0x22])
   \<and> snd (saveToLocalStorage unlimited afterLargeSave ''k'' JNull)
   \<and> afterSmallSave ''k'' = Some ''null''
   \<and> afterSmallSave (chunks_key ''k'') = None
   \<and> afterSmallSave (chunk_key ''k'' 0) = None
   \<and> afterSmallSave (chunk_key ''k'' 19) = None
   \<and> afterSmallSave (chunk_key ''k'' 20) = Some (replicate 999999 (CHR ''a'') @ [CHR 0x22])"
proof -
  let ?s = "CHR 0x22 # replicate 20999998 (CHR ''a'') @ [CHR 0x22]"
  have ser: "serialize (letters 20999998) = Inr ?s" by (rule serialize_letters)
  have len: "length ?s = 21000000" by simp
  have big: "\<not> length ?s < 2000000" by simp
  have n: "ceil_div (length ?s) 1000000 = 21" unfolding len by (simp add: ceil_div_def)
  have ok1: "snd (saveToLocalStorage unlimited Map.empty ''k'' (letters 20999998))"
    by (rule save_succeeds[OF unlimited_all ser])
  note st = save_chunked_state[OF ser big ok1, unfolded n toString_21, folded afterLargeSave_def]
  have c20: "afterLargeSave (chunk_key ''k'' 20) = Some (replicate 999999 (CHR ''a'') @ [CHR 0x22])"
    using st(3)[of 20] by (simp add: substring_def)
  have present: "\<forall>j<20. truthy_string (afterLargeSave (chunk_key ''k'' j))"
  proof (intro allI impI)
    fix j :: nat assume "j < 20"
    then have "j < 21" by simp
    from st(3)[OF this] slice_nonempty[of j ?s] \<open>j < 21\<close> n
    show "truthy_string (afterLargeSave (chunk_key ''k'' j))"
      by (simp add: truthy_string_def del: length_Cons length_append length_replicate)
  qed
  have small: "length ''null'' < 2000000" by simp
  have ok2: "snd (saveToLocalStorage unlimited afterLargeSave ''k'' JNull)"
    by (rule save_succeeds[OF unlimited_all serialize_null])
  note d = save_direct_state[OF serialize_null small ok2, folded afterSmallSave_def]
  note r = save_direct_removes[OF serialize_null small ok2 present, folded afterSmallSave_def]
  have k: "afterSmallSave ''k'' = Some ''null''" by (rule d(1))
  have m: "afterSmallSave (chunks_key ''k'') = None"
    using d(2) st(2) by (simp add: truthy_string_def)
  have r0: "afterSmallSave (chunk_key ''k'' 0) = None" by (rule r) simp_all
  have r19: "afterSmallSave (chunk_key ''k'' 19) = None" by (rule r) simp_all
  have "afterSmallSave (chunk_key ''k'' 20) = afterLargeSave (chunk_key ''k'' 20)"
    by (rule d(3)) (simp_all add: key_distinct)
  then show ?thesis using ok1 st(1,2) c20 ok2 k m r0 r19 by simp
qed

text \<open>
  C9. When the entry under the key is the chunked sentinel, the recorded chunk count
  is \<open>n\<close> and some chunk below \<open>n\<close> is missing, the load throws
  \<open>Missing chunk j of n\<close> for a chunk \<open>j\<close> below \<open>n\<close> and returns the
  default: no partial string is parsed.
\<close>

theorem load_missing_chunk:
  assumes "ls key = Some value" and "prefix ''__CHUNKED__'' value"
    and "ls (chunks_key key) = Some count" and "parseInt count = Some (int n)"
    and "i < n" and "ls (chunk_key key i) = None"
  shows "(\<exists>j<n. load_try ls key d
                  = Inl (Error (''Missing chunk '' @ toString j @ '' of '' @ toString n)))
         \<and> loadFromLocalStorage ls key d = d"
proof -
  have ne: "count \<noteq> []" using assms(4) by (auto simp: parseInt_empty)
  have "i \<in> set [0..<n]" using assms(5) by simp
  moreover have "\<not> truthy_string (ls (chunk_key key i))"
    using assms(6) by (simp add: truthy_string_def)
  ultimately obtain j where j: "j \<in> set [0..<n]"
    and r: "read_chunks ls key n [] [0..<n]
            = Inl (Error (''Missing chunk '' @ toString j @ '' of '' @ toString n))"
    using read_chunks_missing[of i "[0..<n]" ls key n "[]"] by blast
  have lt: "load_try ls key d = Inl (Error (''Missing chunk '' @ toString j @ '' of '' @ toString n))"
    using assms(1-5) ne r by (simp add: load_try_def getItem_def)
  then show ?thesis using j by (auto simp: loadFromLocalStorage_def)
qed

lemma toString_digits_eval:
  "toString 0 = ''0''" "toString (Suc 0) = ''1''" "toString (Suc (Suc 0)) = ''2''"
  "toString (Suc (Suc (Suc 0))) = ''3''"
  by (simp_all add: toString_digit digit_char_def char_of_eq_iff take_bit_eq_mod)

lemma parseInt_4: "parseInt ''4'' = Some 4"
  by (simp add: parseInt_def js_whitespace_def is_digit_def digits_value_def digit_val_def)

theorem load_missing_chunk_witness:
  "brokenStore ''k'' = Some ''__CHUNKED__4''
   \<and> prefix ''__CHUNKED__'' ''__CHUNKED__4''
   \<and> brokenStore (chunks_key ''k'') = Some ''4''
   \<and> parseInt ''4'' = Some (int 4)
   \<and> (2::nat) < 4
   \<and> brokenStore (chunk_key ''k'' 2) = None
   \<and> load_try brokenStore ''k'' (JArr []) = Inl (Error ''Missing chunk 2 of 4'')
   \<and> loadFromLocalStorage brokenStore ''k'' (JArr []) = JArr []"
proof -
  have a: "brokenStore ''k'' = Some ''__CHUNKED__4''"
    by (simp add: brokenStore_def key_distinct)
  have b: "prefix ''__CHUNKED__'' ''__CHUNKED__4''" by simp
  have c: "brokenStore (chunks_key ''k'') = Some ''4''"
    by (simp add: brokenStore_def key_distinct)
  have d: "parseInt ''4'' = Some (int 4)" using parseInt_4 by simp
  have e: "(2::nat) < 4" by simp
  have f: "brokenStore (chunk_key ''k'' 2) = None"
    by (simp add: brokenStore_def key_distinct)
  have g: "load_try brokenStore ''k'' (JArr []) = Inl (Error ''Missing chunk 2 of 4'')"
    using a c by (simp add: load_try_def getItem_def parseInt_4 upt_rec brokenStore_def key_distinct
        toString_digits_eval toString_4)
  from load_missing_chunk[OF a b c d e f, of "JArr []"] a b c d e f g show ?thesis by simp
qed

text \<open>
  C10. For a value that a save accepts on the direct branch, the string stored under
  the key is the JSON serialization, it does not begin with \<open>__CHUNKED__\<close>, and a
  load parses it on the direct branch and returns the value it is the serialization
  of.
\<close>

theorem direct_save_never_sentinel:
  assumes "serialize data = Inr jsonString" and "length jsonString < 2000000"
    and "snd (saveToLocalStorage quota ls key data)"
  shows "fst (saveToLocalStorage quota ls key data) key = Some jsonString
         \<and> \<not> prefix ''__CHUNKED__'' jsonString
         \<and> load_try (fst (saveToLocalStorage quota ls key data)) key d = JSON_parse jsonString
         \<and> (\<exists>v. JSON_stringify v = Some jsonString
                \<and> loadFromLocalStorage (fst (saveToLocalStorage quota ls key data)) key d = v)"
proof -
  have k: "fst (saveToLocalStorage quota ls key data) key = Some jsonString"
    by (rule save_direct_state(1)[OF assms])
  have p: "\<not> prefix ''__CHUNKED__'' jsonString" by (rule serialized_not_sentinel[OF assms(1)])
  have l: "load_try (fst (saveToLocalStorage quota ls key data)) key d = JSON_parse jsonString"
    using k p by (simp add: load_try_def getItem_def)
  from serialize_image[OF assms(1)] obtain v where
    "JSON_stringify v = Some jsonString" "JSON_parse jsonString = Inr v" by blast
  then have "\<exists>v. JSON_stringify v = Some jsonString
                \<and> loadFromLocalStorage (fst (saveToLocalStorage quota ls key data)) key d = v"
    using l by (auto simp: loadFromLocalStorage_def)
  then show ?thesis using k p l by simp
qed

theorem direct_save_never_sentinel_witness:
  "serialize (letters 3) = Inr (CHR 0x22 # ''aaa'' @ [CHR 0x22])
   \<and> length (CHR 0x22 # ''aaa'' @ [CHR 0x22]) < 2000000
   \<and> snd (saveToLocalStorage unlimited Map.empty ''k'' (letters 3))
   \<and> fst (saveToLocalStorage unlimited Map.empty ''k'' (letters 3)) ''k''
       = Some (CHR 0x22 # ''aaa'' @ [CHR 0x22])
   \<and> \<not> prefix ''__CHUNKED__'' (CHR 0x22 # ''aaa'' @ [CHR 0x22])
   \<and> load_try (fst (saveToLocalStorage unlimited Map.empty ''k'' (letters 3))) ''k'' JNull
       = Inr (letters 3)"
proof -
  have a: "serialize (letters 3) = Inr (CHR 0x22 # ''aaa'' @ [CHR 0x22])"
    using serialize_letters[of 3] by (simp add: numeral_3_eq_3)
  have b: "length (CHR 0x22 # ''aaa'' @ [CHR 0x22]) < 2000000" by simp
  have c: "snd (saveToLocalStorage unlimited Map.empty ''k'' (letters 3))"
    by (rule save_succeeds[OF unlimited_all a])
  have p: "JSON_parse (CHR 0x22 # ''aaa'' @ [CHR 0x22]) = Inr (letters 3)"
    using serialize_plain(2)[OF _ stringify_letters[of 3]] by (simp add: letters_def numeral_3_eq_3)
  from direct_save_never_sentinel[OF a b c, of JNull] a b c p show ?thesis by simp
qed

lemma direct_save_removes_all_within_20:
  assumes "serialize large = Inr s1" and "\<not> length s1 < 2000000"
    and "snd (saveToLocalStorage quota ls key large)"
    and "ceil_div (length s1) 1000000 \<le> 20"
    and "serialize small = Inr s2" and "length s2 < 2000000"
    and "snd (saveToLocalStorage quota' (fst (saveToLocalStorage quota ls key large)) key small)"
  shows "fst (saveToLocalStorage quota' (fst (saveToLocalStorage quota ls key large)) key small)
           (chunks_key key) = None"
    and "i < ceil_div (length s1) 1000000 \<Longrightarrow>
         fst (saveToLocalStorage quota' (fst (saveToLocalStorage quota ls key large)) key small)
           (chunk_key key i) = None"
proof -
  let ?ls1 = "fst (saveToLocalStorage quota ls key large)"
  note st = save_chunked_state[OF assms(1-3)]
  have present: "\<forall>j<ceil_div (length s1) 1000000. truthy_string (?ls1 (chunk_key key j))"
    using st(3) slice_nonempty by (simp add: truthy_string_def)
  show "fst (saveToLocalStorage quota' ?ls1 key small) (chunks_key key) = None"
    using save_direct_state(2)[OF assms(5-7)] st(2) toString_nonempty
    by (simp add: truthy_string_def)
  assume "i < ceil_div (length s1) 1000000"
  then show "fst (saveToLocalStorage quota' ?ls1 key small) (chunk_key key i) = None"
    by (rule save_direct_removes[OF assms(5-7) present assms(4)])
qed

end
